theory Spec2Isabelle
  imports Main "HOL-Library.Word"
begin

section \<open>The Whipple camera geometry tables written as JSON text\<close>

text \<open>
  The program \<^verbatim>\<open>AncillaryComponents/whipple_cams_to_json.cpp\<close> streams the tables of
  \<^verbatim>\<open>WhippleCams.h\<close> into one JSON text. The embedding follows the C++ source function by
  function. The machine types are those of the LP64 platforms the program is compiled for:
  \<^verbatim>\<open>int\<close> and \<^verbatim>\<open>unsigned\<close> have 32 bits, \<^verbatim>\<open>size_t\<close> has 64. An \<^verbatim>\<open>ostringstream\<close> is the
  text inserted so far, passed from statement to statement. The header
  \<^verbatim>\<open>WhippleCams.h\<close> is not part of the sources at hand: the row width \<^verbatim>\<open>NUM_NEIGHBORS\<close>
  and the tables are parameters of the model. In the functions the type \<^verbatim>\<open>float\<close> is a
  type parameter \<open>'f\<close> and the library's \<^verbatim>\<open>operator<<(float)\<close> is a parameter \<open>showf\<close>;
  \<open>c_float\<close> and \<open>show_float\<close> below model the two, for the claim that is about them.
\<close>

type_synonym c_int = "32 word"
type_synonym c_unsigned = "32 word"
type_synonym size_t = "64 word"

subsection \<open>Memory reads\<close>

text \<open>
  A C array is the list of its elements; a table \<^verbatim>\<open>int t[n][NUM_NEIGHBORS]\<close> is the list
  of its \<open>n * NUM_NEIGHBORS\<close> elements in row-major order, as the rows lie in memory without
  padding. The source never checks an index. A read inside the array object yields the
  element; a read beyond its end has no defined result and is the fault
  \<open>Out_Of_Bounds\<close>. A fault stands for undefined behaviour of the C++ program, it is not
  an error the program reports.
\<close>

datatype fault = Out_Of_Bounds | Signed_Overflow

definition read_at :: "'a list \<Rightarrow> nat \<Rightarrow> fault + 'a" where
  "read_at arr k = (if k < length arr then Inr (arr ! k) else Inl Out_Of_Bounds)"

text \<open>\<^verbatim>\<open>neighbors[i][j]\<close> on a \<^verbatim>\<open>const int neighbors[][NUM_NEIGHBORS]\<close>: element
  \<open>i * NUM_NEIGHBORS + j\<close> of the table.\<close>

definition nbr_read :: "nat \<Rightarrow> c_int list \<Rightarrow> nat \<Rightarrow> nat \<Rightarrow> fault + c_int" where
  "nbr_read W neighbors i j = read_at neighbors (i * W + j)"

subsection \<open>Stream insertion of integers\<close>

text \<open>\<^verbatim>\<open>oss << n\<close> for the integer types, in the default decimal format.\<close>

fun show_nat :: "nat \<Rightarrow> string" where
  "show_nat n =
     (if n < 10 then [''0123456789'' ! n]
      else show_nat (n div 10) @ [''0123456789'' ! (n mod 10)])"

definition show_int :: "int \<Rightarrow> string" where
  "show_int k = (if k < 0 then CHR ''-'' # show_nat (nat (- k)) else show_nat (nat k))"

subsection \<open>arrayToJsonArray\<close>

text \<open>
  \<^verbatim>\<open>for (size_t i = 0; i < npix; ++i) { oss << array[i]; if (i < npix - 1) oss << ", "; }\<close>
  The subtraction \<^verbatim>\<open>npix - 1\<close> is the one of \<^verbatim>\<open>size_t\<close> and wraps at \<open>npix = 0\<close>.
\<close>

function array_loop ::
  "('f \<Rightarrow> string) \<Rightarrow> 'f list \<Rightarrow> size_t \<Rightarrow> size_t \<Rightarrow> string \<Rightarrow> fault + string" where
  "array_loop showf array npix i oss =
     (if i < npix then
        (case read_at array (unat i) of
           Inl e \<Rightarrow> Inl e
         | Inr v \<Rightarrow>
             let oss1 = oss @ showf v;
                 oss2 = (if i < npix - 1 then oss1 @ '', '' else oss1)
             in array_loop showf array npix (i + 1) oss2)
      else Inr oss)"
  by pat_completeness auto
termination
proof (relation "measure (\<lambda>(showf, array, npix, i, oss). unat npix - unat i)")
  show "wf (measure (\<lambda>(showf :: 'f \<Rightarrow> string, array :: 'f list, npix :: size_t, i :: size_t,
      oss :: string). unat npix - unat i))"
    by simp
next
  fix showf :: "'f \<Rightarrow> string" and array :: "'f list" and npix i :: size_t
    and oss oss1 oss2 :: string and v :: 'f
  assume lt: "i < npix"
  from lt have "unat npix - unat (i + 1) < unat npix - unat i"
    by unat_arith
  then show "((showf, array, npix, i + 1, oss2), (showf, array, npix, i, oss))
      \<in> measure (\<lambda>(showf, array, npix, i, oss). unat npix - unat i)"
    by simp
qed

definition arrayToJsonArray :: "('f \<Rightarrow> string) \<Rightarrow> 'f list \<Rightarrow> size_t \<Rightarrow> fault + string" where
  "arrayToJsonArray showf array npix =
     (case array_loop showf array npix 0 ''['' of
        Inl e \<Rightarrow> Inl e
      | Inr oss \<Rightarrow> Inr (oss @ '']''))"

subsection \<open>neighborsToJsonArray\<close>

text \<open>
  The inner loop
  \<^verbatim>\<open>for (int j = 0; neighbors[i][j] != -1; ++j) { if (neighbors[i][j] >= numTubes) continue;
  if (!first) oss << ", "; oss << neighbors[i][j]; first = false; }\<close>
  has no test of \<open>j\<close> against \<^verbatim>\<open>NUM_NEIGHBORS\<close>: it ends at the first \<open>-1\<close> found from the
  start of row \<open>i\<close> onwards. In \<^verbatim>\<open>neighbors[i][j] >= numTubes\<close> the \<^verbatim>\<open>int\<close> is converted to
  \<^verbatim>\<open>size_t\<close> (sign extension, \<open>scast\<close>) and the comparison is unsigned. The counter \<open>j\<close> is
  an \<^verbatim>\<open>int\<close> that starts at 0 and only grows; it is a natural number here, and incrementing
  it at \<open>2^31 - 1\<close> is the fault \<open>Signed_Overflow\<close>. The loop state is the stream and the
  flag \<^verbatim>\<open>first\<close>; the function also returns the value of \<open>j\<close> at which the loop ended, the
  last column it read.
\<close>

function nbr_scan ::
  "nat \<Rightarrow> c_int list \<Rightarrow> nat \<Rightarrow> size_t \<Rightarrow> nat \<Rightarrow> string \<times> bool \<Rightarrow> fault + (string \<times> nat)" where
  "nbr_scan W neighbors i numTubes j (oss, first) =
     (case nbr_read W neighbors i j of
        Inl e \<Rightarrow> Inl e
      | Inr v \<Rightarrow>
          if v \<noteq> - 1 then
            let st = (if scast v \<ge> numTubes then (oss, first)
                      else ((if \<not> first then oss @ '', '' else oss) @ show_int (sint v), False))
            in if int j = 2 ^ 31 - 1 then Inl Signed_Overflow
               else nbr_scan W neighbors i numTubes (j + 1) st
          else Inr (oss, j))"
  by pat_completeness auto
termination
  by (relation "measure (\<lambda>(W, neighbors, i, numTubes, j, st). length neighbors - (i * W + j))")
    (auto simp: nbr_read_def read_at_def split: if_splits)

text \<open>
  The outer loop
  \<^verbatim>\<open>for (size_t i = 0; i < numTubes; ++i) { oss << "[ "; bool first = true; ...;
  oss << " ]"; if (i < numTubes - 1) oss << ", "; }\<close>
\<close>

function nbr_rows ::
  "nat \<Rightarrow> c_int list \<Rightarrow> size_t \<Rightarrow> size_t \<Rightarrow> string \<Rightarrow> fault + string" where
  "nbr_rows W neighbors numTubes i oss =
     (if i < numTubes then
        (case nbr_scan W neighbors (unat i) numTubes 0 (oss @ ''[ '', True) of
           Inl e \<Rightarrow> Inl e
         | Inr (oss1, j) \<Rightarrow>
             let oss2 = oss1 @ '' ]'';
                 oss3 = (if i < numTubes - 1 then oss2 @ '', '' else oss2)
             in nbr_rows W neighbors numTubes (i + 1) oss3)
      else Inr oss)"
  by pat_completeness auto
termination
proof (relation "measure (\<lambda>(W, neighbors, numTubes, i, oss). unat numTubes - unat i)")
  show "wf (measure (\<lambda>(W :: nat, neighbors :: c_int list, numTubes :: size_t, i :: size_t,
      oss :: string). unat numTubes - unat i))"
    by simp
next
  fix W :: nat and neighbors :: "c_int list" and numTubes i :: size_t
    and oss oss3 :: string
  assume lt: "i < numTubes"
  from lt have "unat numTubes - unat (i + 1) < unat numTubes - unat i"
    by unat_arith
  then show "((W, neighbors, numTubes, i + 1, oss3), (W, neighbors, numTubes, i, oss))
      \<in> measure (\<lambda>(W, neighbors, numTubes, i, oss). unat numTubes - unat i)"
    by simp
qed

definition neighborsToJsonArray :: "nat \<Rightarrow> c_int list \<Rightarrow> size_t \<Rightarrow> fault + string" where
  "neighborsToJsonArray W neighbors numTubes =
     (case nbr_rows W neighbors numTubes 0 ''[ '' of
        Inl e \<Rightarrow> Inl e
      | Inr oss \<Rightarrow> Inr (oss @ '' ]''))"

subsection \<open>writeDataSetToJson\<close>

text \<open>
  The stream \<^verbatim>\<open>json\<close> is passed by reference: the function takes its text and returns the
  new text. \<^verbatim>\<open>nadc\<close> is an \<^verbatim>\<open>unsigned\<close>, \<^verbatim>\<open>npix\<close> a \<^verbatim>\<open>size_t\<close>; both are inserted as
  unsigned decimals.
\<close>

definition writeDataSetToJson ::
  "('f \<Rightarrow> string) \<Rightarrow> nat \<Rightarrow> string \<Rightarrow> c_unsigned \<Rightarrow> 'f list \<Rightarrow> 'f list \<Rightarrow> 'f list \<Rightarrow>
     c_int list \<Rightarrow> size_t \<Rightarrow> bool \<Rightarrow> fault + string" where
  \<open>writeDataSetToJson showf W json nadc posX posY radius neighbors npix more =
     (let json1 = json @ ''  "'' @ show_nat (unat nadc) @ ''": {\<newline>'';
          json2 = json1 @ ''    "nadc": '' @ show_nat (unat nadc) @ '',\<newline>'';
          json3 = json2 @ ''    "npix": '' @ show_nat (unat npix) @ '',\<newline>''
      in case arrayToJsonArray showf posX npix of
           Inl e \<Rightarrow> Inl e
         | Inr sx \<Rightarrow>
        (let json4 = json3 @ ''    "x": '' @ sx @ '',\<newline>''
         in case arrayToJsonArray showf posY npix of
              Inl e \<Rightarrow> Inl e
            | Inr sy \<Rightarrow>
           (let json5 = json4 @ ''    "y": '' @ sy @ '',\<newline>''
            in case arrayToJsonArray showf radius npix of
                 Inl e \<Rightarrow> Inl e
               | Inr sr \<Rightarrow>
              (let json6 = json5 @ ''    "r": '' @ sr @ '',\<newline>''
               in case neighborsToJsonArray W neighbors npix of
                    Inl e \<Rightarrow> Inl e
                  | Inr sn \<Rightarrow>
                 (let json7 = json6 @ ''    "neighbors": '' @ sn @ ''\<newline>''
                  in Inr (if more then json7 @ ''  },\<newline>''
                          else json7 @ ''  }\<newline>''))))))\<close>

subsection \<open>main\<close>

text \<open>The tables of \<^verbatim>\<open>WhippleCams.h\<close> that \<^verbatim>\<open>main\<close> names.\<close>

record 'f whipple_cams =
  WC109Xcoord :: "'f list"
  WC109Ycoord :: "'f list"
  WC109Radius :: "'f list"
  WC109Neighbors :: "c_int list"
  WC151Xcoord :: "'f list"
  WC151Ycoord :: "'f list"
  WC151Radius :: "'f list"
  WC151Neighbors :: "c_int list"
  WC331Xcoord :: "'f list"
  WC331Ycoord :: "'f list"
  WC331Radius :: "'f list"
  WC331Neighbors :: "c_int list"
  WC490Xcoord :: "'f list"
  WC490Ycoord :: "'f list"
  WC490Radius :: "'f list"
  WC490Neighbors :: "c_int list"

text \<open>The backslash, which a string literal of the logic cannot hold.\<close>

definition bs :: string where
  "bs = [CHR 0x5C]"

definition header_line :: string where
  \<open>header_line =
    ''  "header": "whipple_cams.json - Stephen Fegan - 2024-12-26'' @ bs @ ''n'' @ bs @
    ''nPixel positions, radii and neighbor map for Whipple cameras, extracted from'' @ bs @
    ''nWhippleCams.h, a part of ChiLA. The cameras are keyed by the number of ADC'' @ bs @
    ''nchannels read out, which is larger than the number of pixels, each ADC having'' @ bs @
    ''ntwelve channels.'' @ bs @ ''n'' @ bs @ ''nThis file is part of '' @ bs @
    ''"pyfzreader'' @ bs @ ''".'' @ bs @ ''n'' @ bs @ ''n'' @ bs @ ''"pyfzreader'' @ bs @
    ''" is free software: you can redistribute it and/or modify it under'' @ bs @
    ''nthe terms of the GNU General Public License version 2 or later, as published by'' @ bs @
    ''nthe Free Software Foundation.'' @ bs @ ''n'' @ bs @ ''n'' @ bs @ ''"pyfzreader'' @ bs @
    ''" is distributed in the hope that it will be useful, but WITHOUT ANY'' @ bs @
    ''nWARRANTY; without even the implied warranty of MERCHANTABILITY or FITNESS FOR'' @ bs @
    ''nA PARTICULAR PURPOSE.  See the GNU General Public License for more details.'' @ bs @
    ''n",\<newline>''\<close>

text \<open>The text that \<^verbatim>\<open>main\<close> builds in \<^verbatim>\<open>json\<close>, from \<^verbatim>\<open>json << "{\n"\<close> to \<^verbatim>\<open>json << "}\n"\<close>.\<close>

definition main_json :: "('f \<Rightarrow> string) \<Rightarrow> nat \<Rightarrow> 'f whipple_cams \<Rightarrow> fault + string" where
  "main_json showf W T =
     (let json0 = ''{\<newline>'' @ header_line
      in case writeDataSetToJson showf W json0 120 (WC109Xcoord T) (WC109Ycoord T)
                (WC109Radius T) (WC109Neighbors T) 109 True of
           Inl e \<Rightarrow> Inl e
         | Inr json1 \<Rightarrow>
        (case writeDataSetToJson showf W json1 156 (WC151Xcoord T) (WC151Ycoord T)
                (WC151Radius T) (WC151Neighbors T) 151 True of
           Inl e \<Rightarrow> Inl e
         | Inr json2 \<Rightarrow>
        (case writeDataSetToJson showf W json2 336 (WC331Xcoord T) (WC331Ycoord T)
                (WC331Radius T) (WC331Neighbors T) 331 True of
           Inl e \<Rightarrow> Inl e
         | Inr json3 \<Rightarrow>
        (case writeDataSetToJson showf W json3 492 (WC490Xcoord T) (WC490Ycoord T)
                (WC490Radius T) (WC490Neighbors T) 490 True of
           Inl e \<Rightarrow> Inl e
         | Inr json4 \<Rightarrow>
        (case writeDataSetToJson showf W json4 384 (WC490Xcoord T) (WC490Ycoord T)
                (WC490Radius T) (WC490Neighbors T) 379 False of
           Inl e \<Rightarrow> Inl e
         | Inr json5 \<Rightarrow> Inr (json5 @ ''}\<newline>''))))))"

text \<open>
  \<^verbatim>\<open>main\<close> opens \<^verbatim>\<open>whipple_cams.json\<close> for writing, which empties it, and returns 1 when
  that fails. Whether the file can be opened is the environment's answer \<open>can_open\<close>;
  \<open>file\<close> is the content of the file before the run (\<open>None\<close>: there is none). The result
  is the exit status and the content of the file after the run.
\<close>

definition main ::
  "('f \<Rightarrow> string) \<Rightarrow> nat \<Rightarrow> 'f whipple_cams \<Rightarrow> bool \<Rightarrow> string option \<Rightarrow>
     fault + (int \<times> string option)" where
  "main showf W T can_open file =
     (if \<not> can_open then Inr (1, file)
      else case main_json showf W T of
             Inl e \<Rightarrow> Inl e
           | Inr json \<Rightarrow> Inr (0, Some json))"

text \<open>
  The loops are unfolded by hand, one round at a time, where a proof needs it.
\<close>

declare array_loop.simps [simp del] nbr_scan.simps [simp del] nbr_rows.simps [simp del]

section \<open>What the text holds\<close>

subsection \<open>The layout of arrays\<close>

text \<open>
  Both array functions separate items by a comma and a blank. \<open>commas\<close> is that
  layout; \<open>tail_items\<close> is the text of the items that follow a first one.
\<close>

fun commas :: "string list \<Rightarrow> string" where
  "commas [] = []"
| "commas [s] = s"
| "commas (s # t # ts) = s @ '', '' @ commas (t # ts)"

definition tail_items :: "string list \<Rightarrow> string" where
  "tail_items ss = concat (map (\<lambda>s. '', '' @ s) ss)"

definition json_array :: "string list \<Rightarrow> string" where
  "json_array ss = ''['' @ commas ss @ '']''"

text \<open>
  A neighbor list is laid out as \<^verbatim>\<open>[ 1, 2 ]\<close>, the lists of a camera as
  \<^verbatim>\<open>[ [ 1, 2 ], [ 0 ] ]\<close>.
\<close>

definition list_json :: "int list \<Rightarrow> string" where
  "list_json vs = ''[ '' @ commas (map show_int vs) @ '' ]''"

definition nbr_json :: "int list list \<Rightarrow> string" where
  "nbr_json rows = ''[ '' @ commas (map list_json rows) @ '' ]''"

subsection \<open>Rows of a neighbor table\<close>

text \<open>
  Row \<open>i\<close> of a table of width \<open>W\<close>: the \<open>W\<close> elements from \<open>i * W\<close> on (fewer where
  the table ends before). \<open>scanned\<close> is the part of a sequence left of its first \<open>-1\<close>,
  which is what the inner loop walks through; \<open>emitted\<close> are the values among them that
  the test \<^verbatim>\<open>neighbors[i][j] >= numTubes\<close> lets pass to the stream.
\<close>

definition nbr_row :: "nat \<Rightarrow> c_int list \<Rightarrow> nat \<Rightarrow> c_int list" where
  "nbr_row W neighbors i = take W (drop (i * W) neighbors)"

definition scanned :: "c_int list \<Rightarrow> c_int list" where
  "scanned xs = takeWhile (\<lambda>v. v \<noteq> - 1) xs"

definition emitted :: "size_t \<Rightarrow> c_int list \<Rightarrow> c_int list" where
  "emitted numTubes xs = filter (\<lambda>v. \<not> scast v \<ge> numTubes) (scanned xs)"

text \<open>The neighbor lists of the first \<open>npix\<close> rows, as integers.\<close>

definition neighbor_lists :: "nat \<Rightarrow> c_int list \<Rightarrow> size_t \<Rightarrow> int list list" where
  "neighbor_lists W neighbors npix =
     map (\<lambda>i. map sint (emitted npix (nbr_row W neighbors i))) [0..<unat npix]"

subsection \<open>Valid tables\<close>

text \<open>
  The data model asks that every row in use is terminated within its width by the sentinel
  \<open>-1\<close>. Two facts of the platform are part of validity: a row is indexed by an \<^verbatim>\<open>int\<close>,
  so it has at most \<open>2^31\<close> columns, and an array of 4-byte integers lies within an
  address space of \<open>2^64\<close> bytes.
\<close>

definition valid_table :: "nat \<Rightarrow> c_int list \<Rightarrow> size_t \<Rightarrow> bool" where
  "valid_table W neighbors npix \<longleftrightarrow>
     int W \<le> 2 ^ 31 \<and> 4 * int (length neighbors) < 2 ^ 64 \<and>
     list_all (\<lambda>i. - 1 \<in> set (nbr_row W neighbors i)) [0..<unat npix]"

subsection \<open>The geometry record of a camera\<close>

text \<open>
  The record that one call of \<^verbatim>\<open>writeDataSetToJson\<close> writes, the GeometryRecord of the
  specification, and its layout as text. \<open>camera_record\<close> is the record of a camera: the
  counts, the first \<open>npix\<close> coordinates and radii, and the neighbor lists.
\<close>

record 'f GeometryRecord =
  gr_nadc :: nat
  gr_npix :: nat
  gr_x :: "'f list"
  gr_y :: "'f list"
  gr_r :: "'f list"
  gr_neighbors :: "int list list"

definition record_json :: "('f \<Rightarrow> string) \<Rightarrow> 'f GeometryRecord \<Rightarrow> bool \<Rightarrow> string" where
  \<open>record_json showf g more' =
     ''  "'' @ show_nat (gr_nadc g) @ ''": {\<newline>'' @
     ''    "nadc": '' @ show_nat (gr_nadc g) @ '',\<newline>'' @
     ''    "npix": '' @ show_nat (gr_npix g) @ '',\<newline>'' @
     ''    "x": '' @ json_array (map showf (gr_x g)) @ '',\<newline>'' @
     ''    "y": '' @ json_array (map showf (gr_y g)) @ '',\<newline>'' @
     ''    "r": '' @ json_array (map showf (gr_r g)) @ '',\<newline>'' @
     ''    "neighbors": '' @ nbr_json (gr_neighbors g) @ ''\<newline>'' @
     (if more' then ''  },\<newline>'' else ''  }\<newline>'')\<close>

definition camera_record ::
  "c_unsigned \<Rightarrow> 'f list \<Rightarrow> 'f list \<Rightarrow> 'f list \<Rightarrow> nat \<Rightarrow> c_int list \<Rightarrow> size_t \<Rightarrow>
     'f GeometryRecord" where
  "camera_record nadc posX posY radius W neighbors npix =
     \<lparr>gr_nadc = unat nadc, gr_npix = unat npix,
      gr_x = take (unat npix) posX, gr_y = take (unat npix) posY,
      gr_r = take (unat npix) radius,
      gr_neighbors = neighbor_lists W neighbors npix\<rparr>"

subsection \<open>The neighbor list in the words of the specification\<close>

text \<open>
  The specification builds the neighbor list of a pixel by scanning its row from the
  left, stopping at the first \<open>-1\<close> and keeping the values \<open>v < pixel_count\<close>:
  \<open>spec_neighbor_list\<close>, on the integers of the row. \<open>range_neighbor_list\<close> keeps the
  values with \<open>0 \<le> v < pixel_count\<close>.
\<close>

definition spec_neighbor_list :: "nat \<Rightarrow> int list \<Rightarrow> int list" where
  "spec_neighbor_list npix row = filter (\<lambda>v. v < int npix) (takeWhile (\<lambda>v. v \<noteq> - 1) row)"

definition range_neighbor_list :: "nat \<Rightarrow> int list \<Rightarrow> int list" where
  "range_neighbor_list npix row =
     filter (\<lambda>v. 0 \<le> v \<and> v < int npix) (takeWhile (\<lambda>v. v \<noteq> - 1) row)"

subsection \<open>Valid cameras\<close>

text \<open>
  The input constraints of a camera: its table is valid and the three arrays hold at least
  \<open>npix\<close> values. \<open>valid_cams\<close> asks this of the four cameras that \<^verbatim>\<open>main\<close> writes with
  their own pixel counts; the fifth call reads the tables of the fourth with a smaller count.
\<close>

definition valid_camera ::
  "nat \<Rightarrow> 'f list \<Rightarrow> 'f list \<Rightarrow> 'f list \<Rightarrow> c_int list \<Rightarrow> size_t \<Rightarrow> bool" where
  "valid_camera W posX posY radius neighbors npix \<longleftrightarrow>
     valid_table W neighbors npix \<and> unat npix \<le> length posX \<and> unat npix \<le> length posY \<and>
     unat npix \<le> length radius"

definition valid_cams :: "nat \<Rightarrow> 'f whipple_cams \<Rightarrow> bool" where
  "valid_cams W T \<longleftrightarrow>
     valid_camera W (WC109Xcoord T) (WC109Ycoord T) (WC109Radius T) (WC109Neighbors T) 109 \<and>
     valid_camera W (WC151Xcoord T) (WC151Ycoord T) (WC151Radius T) (WC151Neighbors T) 151 \<and>
     valid_camera W (WC331Xcoord T) (WC331Ycoord T) (WC331Radius T) (WC331Neighbors T) 331 \<and>
     valid_camera W (WC490Xcoord T) (WC490Ycoord T) (WC490Radius T) (WC490Neighbors T) 490"

text \<open>The records of the fourth and the fifth call of \<^verbatim>\<open>main\<close>, both on the WC490 tables.\<close>

definition cam492 :: "nat \<Rightarrow> 'f whipple_cams \<Rightarrow> 'f GeometryRecord" where
  "cam492 W T =
     camera_record 492 (WC490Xcoord T) (WC490Ycoord T) (WC490Radius T) W (WC490Neighbors T) 490"

definition cam384 :: "nat \<Rightarrow> 'f whipple_cams \<Rightarrow> 'f GeometryRecord" where
  "cam384 W T =
     camera_record 384 (WC490Xcoord T) (WC490Ycoord T) (WC490Radius T) W (WC490Neighbors T) 379"

subsection \<open>A chain of pixels\<close>

text \<open>
  A concrete set of tables, of width 2: pixel \<open>i\<close> has the one neighbor \<open>i + 1\<close>. The last
  pixel of each camera thus names a neighbor that is not one of its pixels.
\<close>

definition chain_table :: "nat \<Rightarrow> c_int list" where
  "chain_table n = concat (map (\<lambda>i. [of_nat (Suc i), - 1]) [0..<n])"

definition chain_cams :: "nat whipple_cams" where
  "chain_cams =
     \<lparr>WC109Xcoord = [0..<109], WC109Ycoord = [0..<109], WC109Radius = replicate 109 1,
      WC109Neighbors = chain_table 109,
      WC151Xcoord = [0..<151], WC151Ycoord = [0..<151], WC151Radius = replicate 151 1,
      WC151Neighbors = chain_table 151,
      WC331Xcoord = [0..<331], WC331Ycoord = [0..<331], WC331Radius = replicate 331 1,
      WC331Neighbors = chain_table 331,
      WC490Xcoord = [0..<490], WC490Ycoord = [0..<490], WC490Radius = replicate 490 1,
      WC490Neighbors = chain_table 490\<rparr>"

subsection \<open>The default format of a float\<close>

text \<open>
  Modelled from the C and C++ standards: \<^verbatim>\<open>operator<<(float)\<close> is library code. The source
  sets neither a precision nor a float field on its streams, so \<^verbatim>\<open>oss << array[i]\<close> converts
  the \<^verbatim>\<open>float\<close> to \<^verbatim>\<open>double\<close>, which changes no value, and formats it as \<^verbatim>\<open>printf\<close> does
  with \<^verbatim>\<open>%g\<close> and the default precision 6.

  A finite \<^verbatim>\<open>float\<close> is a sign, a mantissa below \<open>2^24\<close> and a binary exponent: its value is
  \<open>mantissa * 2^exponent\<close>, held here as the fraction \<open>fl_num / fl_den\<close>. Infinities and
  NaNs are left out.
\<close>

record c_float =
  fl_negative :: bool
  fl_mantissa :: int
  fl_exponent :: int

definition is_float32 :: "c_float \<Rightarrow> bool" where
  "is_float32 f \<longleftrightarrow>
     0 \<le> fl_mantissa f \<and> fl_mantissa f < 2 ^ 24 \<and> - 149 \<le> fl_exponent f \<and> fl_exponent f \<le> 104"

definition fl_num :: "c_float \<Rightarrow> int" where
  "fl_num f = (if 0 \<le> fl_exponent f then fl_mantissa f * 2 ^ nat (fl_exponent f) else fl_mantissa f)"

definition fl_den :: "c_float \<Rightarrow> int" where
  "fl_den f = (if 0 \<le> fl_exponent f then 1 else 2 ^ nat (- fl_exponent f))"

text \<open>
  The decimal exponent \<open>X\<close> of a positive value \<open>N / D\<close>, that is \<open>10^X \<le> N / D < 10^(X + 1)\<close>:
  the number of powers \<open>10^k\<close>, \<open>k \<ge> 1\<close>, that are not above the value, less the number of
  \<open>k \<ge> 0\<close> for which \<open>10^k\<close> times the value is still below 1. The values of a \<^verbatim>\<open>float\<close> lie
  between \<open>10^(-45)\<close> and \<open>10^39\<close>.
\<close>

definition dec_exp :: "int \<Rightarrow> int \<Rightarrow> int" where
  "dec_exp N D =
     int (length (filter (\<lambda>k. D * 10 ^ k \<le> N) [1..<40])) -
     int (length (filter (\<lambda>k. N * 10 ^ k < D) [0..<46]))"

text \<open>
  The six significant digits: the value is scaled to lie between \<open>10^5\<close> and \<open>10^6\<close> and
  rounded to the nearest integer, a tie to the even one, as the C libraries round. When
  that reaches \<open>10^6\<close> the digits are \<open>100000\<close> and the exponent is one more.
\<close>

definition round_half_even :: "int \<Rightarrow> int \<Rightarrow> int" where
  "round_half_even num den =
     (let q = num div den; r = num mod den
      in if 2 * r < den then q
         else if den < 2 * r then q + 1
         else if even q then q else q + 1)"

definition sig6 :: "int \<Rightarrow> int \<Rightarrow> int \<times> int" where
  "sig6 N D =
     (let X = dec_exp N D;
          d = (if X \<le> 5 then round_half_even (N * 10 ^ nat (5 - X)) D
               else round_half_even N (D * 10 ^ nat (X - 5)))
      in if d = 1000000 then (100000, X + 1) else (d, X))"

text \<open>
  The layout of \<^verbatim>\<open>%g\<close> with precision \<open>P = 6\<close>: style \<^verbatim>\<open>f\<close> with \<open>P - 1 - X\<close> digits after the
  point when \<open>-4 \<le> X < P\<close>, else style \<^verbatim>\<open>e\<close> with \<open>P - 1\<close> digits after the point and an
  exponent of at least two digits. Trailing zeros of the fraction are removed, and the
  point with them when no digit of the fraction remains. \<open>ds\<close> are the six digits.
\<close>

definition strip_zeros :: "string \<Rightarrow> string" where
  "strip_zeros s = rev (dropWhile (\<lambda>c. c = CHR ''0'') (rev s))"

definition fraction :: "string \<Rightarrow> string" where
  "fraction s = (let fp = strip_zeros s in if fp = [] then [] else ''.'' @ fp)"

definition style_f :: "string \<Rightarrow> int \<Rightarrow> string" where
  "style_f ds X =
     (if 0 \<le> X then take (nat X + 1) ds @ fraction (drop (nat X + 1) ds)
      else ''0.'' @ replicate (nat (- X - 1)) (CHR ''0'') @ strip_zeros ds)"

definition style_e :: "string \<Rightarrow> int \<Rightarrow> string" where
  "style_e ds X =
     take 1 ds @ fraction (drop 1 ds) @ ''e'' @ (if X < 0 then ''-'' else ''+'') @
     (if \<bar>X\<bar> < 10 then ''0'' else []) @ show_nat (nat \<bar>X\<bar>)"

definition show_float :: "c_float \<Rightarrow> string" where
  "show_float f =
     (if fl_negative f then ''-'' else []) @
     (if fl_mantissa f = 0 then ''0''
      else let (d, X) = sig6 (fl_num f) (fl_den f); ds = show_nat (nat d)
           in if - 4 \<le> X \<and> X < 6 then style_f ds X else style_e ds X)"

section \<open>The loops in closed form\<close>

subsection \<open>Conversions and counters\<close>

text \<open>
  The conversion of an \<^verbatim>\<open>int\<close> to \<^verbatim>\<open>size_t\<close> maps a negative value to one of the
  upper \<open>2^31\<close> values of the type. Below \<open>2^63\<close> pixels the unsigned test therefore
  keeps exactly the values in the range of pixel indices.
\<close>

lemma uint_scast_int:
  fixes v :: c_int
  shows "uint (scast v :: size_t) = (if 0 \<le> sint v then sint v else sint v + 2 ^ 64)"
proof -
  have lo: "- (2 ^ 31) \<le> sint v" and hi: "sint v < 2 ^ 31"
    using sint_ge [of v] sint_lt [of v] by simp_all
  have "uint (scast v :: size_t) = sint v mod 2 ^ 64"
    by (subst scast_eq) (simp only: uint_word_of_int, simp)
  also have "\<dots> = (if 0 \<le> sint v then sint v else sint v + 2 ^ 64)"
  proof (cases "0 \<le> sint v")
    case True
    with hi show ?thesis by simp
  next
    case False
    then have "sint v mod 2 ^ 64 = (sint v + 2 ^ 64) mod 2 ^ 64"
      by simp
    also from False lo have "\<dots> = sint v + 2 ^ 64"
      by (intro mod_pos_pos_trivial) simp_all
    finally show ?thesis using False by simp
  qed
  finally show ?thesis .
qed

lemma scast_range:
  fixes v :: c_int and n :: size_t
  assumes "unat n < 2 ^ 63"
  shows "(\<not> n \<le> scast v) \<longleftrightarrow> (0 \<le> sint v \<and> sint v < int (unat n))"
proof -
  have lo: "- (2 ^ 31) \<le> sint v"
    using sint_ge [of v] by simp
  have un: "uint n = int (unat n)"
    by (rule uint_nat)
  from assms have "int (unat n) < int (2 ^ 63)"
    by (simp only: of_nat_less_iff)
  then have n: "uint n < 2 ^ 63"
    by (simp only: uint_nat of_nat_power of_nat_numeral)
  have "(\<not> n \<le> scast v) \<longleftrightarrow> uint (scast v :: size_t) < uint n"
    by (simp add: word_le_def not_le)
  also have "\<dots> \<longleftrightarrow> (0 \<le> sint v \<and> sint v < uint n)"
    using lo n by (auto simp: uint_scast_int)
  finally show ?thesis unfolding un .
qed

lemma sint_sentinel: "sint (v :: c_int) = - 1 \<longleftrightarrow> v = - 1"
  by (metis sint_n1 word_eq_iff_signed)

lemma size_t_Suc:
  fixes i n :: size_t
  assumes "i < n"
  shows "unat (i + 1) = Suc (unat i)" and "unat i < unat n"
    and "i < n - 1 \<longleftrightarrow> Suc (unat i) < unat n"
  using assms by unat_arith+

subsection \<open>Separators\<close>

lemma commas_Cons: "commas (s # ss) = s @ (if ss = [] then [] else '', '' @ commas ss)"
  by (cases ss) simp_all

lemma commas_tail_items: "commas (s # ss) = s @ tail_items ss"
  by (induction ss arbitrary: s) (simp_all add: tail_items_def)

lemma tail_items_simps [simp]:
  "tail_items [] = []" "tail_items (s # ss) = '', '' @ s @ tail_items ss"
  by (simp_all add: tail_items_def)

subsection \<open>arrayToJsonArray\<close>

lemma array_loop_text:
  assumes "unat npix \<le> length array" and "i \<le> npix"
  shows "array_loop showf array npix i oss =
    Inr (oss @ commas (map showf (drop (unat i) (take (unat npix) array))))"
  using assms
proof (induction "unat npix - unat i" arbitrary: i oss)
  case 0
  then have "i = npix"
    by (simp add: word_le_nat_alt word_unat_eq_iff)
  then show ?case
    by (simp add: array_loop.simps)
next
  case (Suc k)
  then have lt: "i < npix"
    by (simp add: word_less_nat_alt)
  note s = size_t_Suc [OF lt]
  from Suc.prems s have rd: "read_at array (unat i) = Inr (array ! unat i)"
    by (simp add: read_at_def)
  have dr: "drop (unat i) (take (unat npix) array) =
      array ! unat i # drop (Suc (unat i)) (take (unat npix) array)"
    using Suc.prems s by (simp add: Cons_nth_drop_Suc [symmetric])
  have le: "i + 1 \<le> npix"
    using lt by (rule inc_le)
  have k: "k = unat npix - unat (i + 1)"
    using Suc.hyps(2) s by simp
  have emp: "drop (Suc (unat i)) (take (unat npix) array) = [] \<longleftrightarrow> \<not> Suc (unat i) < unat npix"
    using Suc.prems by auto
  have "array_loop showf array npix i oss =
      array_loop showf array npix (i + 1)
        (if Suc (unat i) < unat npix then (oss @ showf (array ! unat i)) @ '', ''
         else oss @ showf (array ! unat i))"
    by (subst array_loop.simps) (simp add: lt rd Let_def s)
  also have "\<dots> = Inr (oss @ commas (map showf (drop (unat i) (take (unat npix) array))))"
    using Suc.prems(1) by (simp add: Suc.hyps(1) [OF k Suc.prems(1) le] s dr commas_Cons emp min_def)
  finally show ?case .
qed

lemma arrayToJsonArray_text:
  assumes "unat npix \<le> length array"
  shows "arrayToJsonArray showf array npix = Inr (json_array (map showf (take (unat npix) array)))"
  using array_loop_text [OF assms, of 0 showf "''[''"]
  by (simp add: arrayToJsonArray_def json_array_def)

subsection \<open>The scan of a row\<close>

text \<open>
  From any column on, the inner loop walks to the first \<open>-1\<close> of the memory that follows,
  wherever it lies, provided the counter does not overflow on the way.
\<close>

lemma nbr_scan_text:
  assumes "- 1 \<in> set (drop (i * W + j) neighbors)"
    and "j + length (scanned (drop (i * W + j) neighbors)) < 2 ^ 31"
  shows "nbr_scan W neighbors i numTubes j (oss, first) =
    Inr (oss @ (if first then commas else tail_items)
            (map (\<lambda>v. show_int (sint v)) (emitted numTubes (drop (i * W + j) neighbors))),
         j + length (scanned (drop (i * W + j) neighbors)))"
  using assms
proof (induction xs \<equiv> "drop (i * W + j) neighbors" arbitrary: j oss first)
  case Nil
  then show ?case by simp
next
  case (Cons v rest)
  from Cons.hyps(2) have inb: "i * W + j < length neighbors"
    by (metis drop_eq_Nil linorder_not_less list.distinct(1))
  with Cons.hyps(2) have v: "neighbors ! (i * W + j) = v"
    and rest: "rest = drop (i * W + Suc j) neighbors"
    by (simp_all add: Cons_nth_drop_Suc [symmetric])
  from inb v have rd: "nbr_read W neighbors i j = Inr v"
    by (simp add: nbr_read_def read_at_def)
  have rest': "drop (Suc (i * W + j)) neighbors = rest"
    using rest by simp
  from Cons.prems have pr: "- 1 \<in> set (v # rest)"
    "j + length (scanned (v # rest)) < 2 ^ 31"
    by (simp_all only: Cons.hyps(2) [symmetric])
  show ?case
  proof (cases "v = - 1")
    case True
    then show ?thesis
      by (subst nbr_scan.simps) (simp add: rd Cons.hyps(2) [symmetric] scanned_def emitted_def)
  next
    case False
    with pr have m1: "- 1 \<in> set (drop (i * W + Suc j) neighbors)"
      and bd: "Suc j + length (scanned (drop (i * W + Suc j) neighbors)) < 2 ^ 31"
      by (simp_all add: rest' scanned_def)
    from bd have j: "j \<noteq> 2147483647"
      by simp
    note IH = Cons.hyps(1) [OF rest m1 bd]
    have "nbr_scan W neighbors i numTubes j (oss, first) =
        nbr_scan W neighbors i numTubes (Suc j)
          (if numTubes \<le> scast v then (oss, first)
           else ((if \<not> first then oss @ '', '' else oss) @ show_int (sint v), False))"
      by (subst nbr_scan.simps) (simp add: rd False j Let_def)
    also have "\<dots> = Inr (oss @ (if first then commas else tail_items)
            (map (\<lambda>v. show_int (sint v)) (emitted numTubes (v # rest))),
         j + length (scanned (v # rest)))"
      using False by (simp add: IH rest' scanned_def emitted_def commas_tail_items)
    finally show ?thesis
      by (simp only: Cons.hyps(2) [symmetric])
  qed
qed

lemma takeWhile_take_sentinel:
  assumes "x \<in> set (take n xs)"
  shows "takeWhile (\<lambda>v. v \<noteq> x) xs = takeWhile (\<lambda>v. v \<noteq> x) (take n xs)"
    and "length (takeWhile (\<lambda>v. v \<noteq> x) xs) < n"
  using assms
proof (induction xs arbitrary: n)
  case Nil
  case 1 then show ?case by simp
  case 2 then show ?case by simp
next
  case (Cons a xs)
  case 1 then show ?case using Cons.IH(1) by (cases n) auto
  case 2 then show ?case using Cons.IH(2) by (cases n) auto
qed

lemma row_sentinel:
  assumes "- 1 \<in> set (nbr_row W neighbors i)"
  shows "- 1 \<in> set (drop (i * W) neighbors)"
    and "scanned (drop (i * W) neighbors) = scanned (nbr_row W neighbors i)"
    and "emitted numTubes (drop (i * W) neighbors) = emitted numTubes (nbr_row W neighbors i)"
    and "length (scanned (nbr_row W neighbors i)) < W"
proof -
  from assms show "- 1 \<in> set (drop (i * W) neighbors)"
    unfolding nbr_row_def by (rule in_set_takeD)
  from assms show sc: "scanned (drop (i * W) neighbors) = scanned (nbr_row W neighbors i)"
    unfolding nbr_row_def scanned_def by (rule takeWhile_take_sentinel(1))
  then show "emitted numTubes (drop (i * W) neighbors) = emitted numTubes (nbr_row W neighbors i)"
    by (simp add: emitted_def)
  from assms have "length (scanned (drop (i * W) neighbors)) < W"
    unfolding nbr_row_def scanned_def by (rule takeWhile_take_sentinel(2))
  with sc show "length (scanned (nbr_row W neighbors i)) < W"
    by simp
qed

lemma nbr_scan_row:
  assumes "- 1 \<in> set (nbr_row W neighbors i)" and "W \<le> 2 ^ 31"
  shows "nbr_scan W neighbors i numTubes 0 (oss, True) =
    Inr (oss @ commas (map show_int (map sint (emitted numTubes (nbr_row W neighbors i)))),
         length (scanned (nbr_row W neighbors i)))"
proof -
  note r = row_sentinel [OF assms(1)]
  from r(4) assms(2) have "0 + length (scanned (drop (i * W + 0) neighbors)) < 2 ^ 31"
    by (simp add: r(2))
  moreover from r(1) have "- 1 \<in> set (drop (i * W + 0) neighbors)"
    by simp
  ultimately show ?thesis
    using nbr_scan_text [of i W 0 neighbors numTubes oss True]
    by (simp add: r(2) r(3) [of numTubes] comp_def)
qed

subsection \<open>neighborsToJsonArray\<close>

lemma nbr_rows_text:
  assumes "W \<le> 2 ^ 31"
    and "\<And>k. unat i \<le> k \<Longrightarrow> k < unat numTubes \<Longrightarrow> - 1 \<in> set (nbr_row W neighbors k)"
    and "i \<le> numTubes"
  shows "nbr_rows W neighbors numTubes i oss =
    Inr (oss @ commas (map (\<lambda>k. list_json (map sint (emitted numTubes (nbr_row W neighbors k))))
                  [unat i ..< unat numTubes]))"
  using assms(2,3)
proof (induction "unat numTubes - unat i" arbitrary: i oss)
  case 0
  then have "i = numTubes"
    by (simp add: word_le_nat_alt word_unat_eq_iff)
  then show ?case
    by (simp add: nbr_rows.simps)
next
  case (Suc n)
  then have lt: "i < numTubes"
    by (simp add: word_less_nat_alt)
  note s = size_t_Suc [OF lt]
  have row: "- 1 \<in> set (nbr_row W neighbors (unat i))"
    using Suc.prems(1) s(2) by simp
  have le: "i + 1 \<le> numTubes"
    using lt by (rule inc_le)
  have n: "n = unat numTubes - unat (i + 1)"
    using Suc.hyps(2) s by simp
  have rows: "\<And>k. unat (i + 1) \<le> k \<Longrightarrow> k < unat numTubes \<Longrightarrow>
      - 1 \<in> set (nbr_row W neighbors k)"
    using Suc.prems(1) s(1) by simp
  have IH: "nbr_rows W neighbors numTubes (i + 1) oss' =
      Inr (oss' @ commas (map (\<lambda>k. list_json (map sint (emitted numTubes
        (nbr_row W neighbors k)))) [unat (i + 1) ..< unat numTubes]))" for oss'
    by (rule Suc.hyps(1) [OF n _ le]) (rule rows)
  have upt: "[unat i ..< unat numTubes] = unat i # [Suc (unat i) ..< unat numTubes]"
    using s(2) by (rule upt_conv_Cons)
  have "nbr_rows W neighbors numTubes i oss =
      nbr_rows W neighbors numTubes (i + 1)
        (if Suc (unat i) < unat numTubes
         then oss @ list_json (map sint (emitted numTubes (nbr_row W neighbors (unat i)))) @ '', ''
         else oss @ list_json (map sint (emitted numTubes (nbr_row W neighbors (unat i)))))"
    by (subst nbr_rows.simps)
      (simp add: lt nbr_scan_row [OF row assms(1)] Let_def s list_json_def)
  also have "\<dots> = Inr (oss @ commas (map (\<lambda>k. list_json (map sint (emitted numTubes
      (nbr_row W neighbors k)))) [unat i ..< unat numTubes]))"
    by (simp add: IH s upt commas_Cons)
  finally show ?case .
qed

lemma valid_table_row:
  "valid_table W neighbors npix \<Longrightarrow> i < unat npix \<Longrightarrow> - 1 \<in> set (nbr_row W neighbors i)"
  by (simp add: valid_table_def list_all_iff)

lemma valid_table_npix:
  assumes "valid_table W neighbors npix"
  shows "unat npix < 2 ^ 63"
proof (cases "unat npix")
  case 0
  then show ?thesis by simp
next
  case (Suc k)
  then have "- 1 \<in> set (nbr_row W neighbors k)"
    using valid_table_row [OF assms, of k] by simp
  then have "nbr_row W neighbors k \<noteq> []"
    by auto
  then have "0 < W" and "k * W < length neighbors"
    by (auto simp: nbr_row_def)
  then have "k * 1 < length neighbors"
    by (metis Suc_leI le_less_trans mult_le_mono2 One_nat_def)
  then have k: "k < length neighbors"
    by simp
  from assms have "4 * int (length neighbors) < 2 ^ 64"
    unfolding valid_table_def by blast
  then have "length neighbors < 2 ^ 62"
    by simp
  with k have "Suc k < 2 ^ 63"
    by simp
  then show ?thesis
    unfolding Suc .
qed

lemma valid_table_mono:
  assumes "valid_table W neighbors n" and "m \<le> n"
  shows "valid_table W neighbors m"
proof -
  from assms(2) have "unat m \<le> unat n"
    by (simp add: word_le_nat_alt)
  with assms(1) show ?thesis
    by (auto simp: valid_table_def list_all_iff)
qed

lemma neighborsToJsonArray_text:
  assumes "valid_table W neighbors npix"
  shows "neighborsToJsonArray W neighbors npix = Inr (nbr_json (neighbor_lists W neighbors npix))"
proof -
  from assms have W: "W \<le> 2 ^ 31"
    by (simp add: valid_table_def)
  have "nbr_rows W neighbors npix 0 ''[ '' =
      Inr (''[ '' @ commas (map (\<lambda>k. list_json (map sint (emitted npix (nbr_row W neighbors k))))
        [unat (0 :: size_t) ..< unat npix]))"
    by (rule nbr_rows_text [OF W]) (simp_all add: valid_table_row [OF assms])
  then show ?thesis
    by (simp add: neighborsToJsonArray_def nbr_json_def neighbor_lists_def comp_def)
qed

subsection \<open>The emitted values\<close>

lemma emitted_range:
  assumes "unat npix < 2 ^ 63"
  shows "map sint (emitted npix xs) = range_neighbor_list (unat npix) (map sint xs)"
  by (simp add: emitted_def scanned_def range_neighbor_list_def takeWhile_map filter_map
      comp_def sint_sentinel scast_range [OF assms])

lemma emitted_bounds:
  assumes "unat npix < 2 ^ 63" and "v \<in> set (emitted npix xs)"
  shows "0 \<le> sint v" and "sint v < int (unat npix)"
  using assms(2) scast_range [OF assms(1), of v] by (simp_all add: emitted_def)

lemma neighbor_lists_truncate:
  assumes "valid_table W neighbors n" and "m \<le> n"
  shows "neighbor_lists W neighbors m =
    map (filter (\<lambda>v. v < int (unat m))) (take (unat m) (neighbor_lists W neighbors n))"
proof -
  from assms(2) have le: "unat m \<le> unat n"
    by (simp add: word_le_nat_alt)
  have n: "unat n < 2 ^ 63"
    using assms(1) by (rule valid_table_npix)
  with le have m: "unat m < 2 ^ 63"
    by simp
  from assms(2) have ule: "uint m \<le> uint n"
    by (simp add: word_le_def)
  have "map sint (emitted m xs) = filter (\<lambda>v. v < int (unat m)) (map sint (emitted n xs))" for xs
    unfolding emitted_range [OF m] emitted_range [OF n] range_neighbor_list_def filter_filter
    using ule by (intro filter_cong refl) auto
  then show ?thesis
    using le by (simp add: neighbor_lists_def take_map min_def)
qed

subsection \<open>writeDataSetToJson\<close>

text \<open>
  For a valid camera the call appends the text of the camera's record. In every case the
  text it appends does not depend on what the stream held before.
\<close>

lemma writeDataSetToJson_text:
  assumes "valid_table W neighbors npix"
    and "unat npix \<le> length posX" and "unat npix \<le> length posY"
    and "unat npix \<le> length radius"
  shows "writeDataSetToJson showf W json nadc posX posY radius neighbors npix more' =
    Inr (json @ record_json showf (camera_record nadc posX posY radius W neighbors npix) more')"
  by (simp add: writeDataSetToJson_def arrayToJsonArray_text assms(2-4)
      neighborsToJsonArray_text [OF assms(1)] record_json_def camera_record_def Let_def)

lemma writeDataSetToJson_frame:
  "writeDataSetToJson showf W json nadc posX posY radius neighbors npix more' =
     (case writeDataSetToJson showf W [] nadc posX posY radius neighbors npix more' of
        Inl e \<Rightarrow> Inl e
      | Inr entry \<Rightarrow> Inr (json @ entry))"
proof (cases "arrayToJsonArray showf posX npix")
  case x: Inl
  show ?thesis
    unfolding writeDataSetToJson_def Let_def x sum.case by simp
next
  case x: (Inr sx)
  show ?thesis
  proof (cases "arrayToJsonArray showf posY npix")
    case y: Inl
    show ?thesis
      unfolding writeDataSetToJson_def Let_def x y sum.case by simp
  next
    case y: (Inr sy)
    show ?thesis
    proof (cases "arrayToJsonArray showf radius npix")
      case r: Inl
      show ?thesis
        unfolding writeDataSetToJson_def Let_def x y r sum.case by simp
    next
      case r: (Inr sr)
      show ?thesis
      proof (cases "neighborsToJsonArray W neighbors npix")
        case n: Inl
        show ?thesis
          unfolding writeDataSetToJson_def Let_def x y r n sum.case by simp
      next
        case n: (Inr sn)
        show ?thesis
          unfolding writeDataSetToJson_def Let_def x y r n sum.case by simp
      qed
    qed
  qed
qed

subsection \<open>main\<close>

lemma valid_camera_narrow:
  assumes "valid_camera W posX posY radius neighbors n" and "m \<le> n"
  shows "valid_camera W posX posY radius neighbors m"
proof -
  from assms(2) have "unat m \<le> unat n"
    by (simp add: word_le_nat_alt)
  with assms(1) valid_table_mono [OF _ assms(2)] show ?thesis
    by (auto simp: valid_camera_def)
qed

lemma writeDataSetToJson_camera:
  assumes "valid_camera W posX posY radius neighbors npix"
  shows "writeDataSetToJson showf W json nadc posX posY radius neighbors npix more' =
    Inr (json @ record_json showf (camera_record nadc posX posY radius W neighbors npix) more')"
  using assms unfolding valid_camera_def by (intro writeDataSetToJson_text) simp_all

lemma main_json_text:
  assumes "valid_cams W T"
  shows "main_json showf W T =
    Inr (''{\<newline>'' @ header_line @
      record_json showf (camera_record 120 (WC109Xcoord T) (WC109Ycoord T) (WC109Radius T) W
        (WC109Neighbors T) 109) True @
      record_json showf (camera_record 156 (WC151Xcoord T) (WC151Ycoord T) (WC151Radius T) W
        (WC151Neighbors T) 151) True @
      record_json showf (camera_record 336 (WC331Xcoord T) (WC331Ycoord T) (WC331Radius T) W
        (WC331Neighbors T) 331) True @
      record_json showf (cam492 W T) True @
      record_json showf (cam384 W T) False @ ''}\<newline>'')"
proof -
  from assms have c: 
    "valid_camera W (WC109Xcoord T) (WC109Ycoord T) (WC109Radius T) (WC109Neighbors T) 109"
    "valid_camera W (WC151Xcoord T) (WC151Ycoord T) (WC151Radius T) (WC151Neighbors T) 151"
    "valid_camera W (WC331Xcoord T) (WC331Ycoord T) (WC331Radius T) (WC331Neighbors T) 331"
    "valid_camera W (WC490Xcoord T) (WC490Ycoord T) (WC490Radius T) (WC490Neighbors T) 490"
    by (simp_all add: valid_cams_def)
  have "(379 :: size_t) \<le> 490"
    by (simp add: word_le_nat_alt)
  with c(4) have c5:
    "valid_camera W (WC490Xcoord T) (WC490Ycoord T) (WC490Radius T) (WC490Neighbors T) 379"
    by (rule valid_camera_narrow)
  show ?thesis
    unfolding main_json_def Let_def writeDataSetToJson_camera [OF c(1)]
      writeDataSetToJson_camera [OF c(2)] writeDataSetToJson_camera [OF c(3)]
      writeDataSetToJson_camera [OF c(4)] writeDataSetToJson_camera [OF c5] sum.case
      cam492_def cam384_def
    by simp
qed

subsection \<open>The chain of pixels is valid\<close>

lemma chain_table_Suc:
  "chain_table (Suc n) = chain_table n @ [of_nat (Suc n), - 1]"
  by (simp add: chain_table_def)

lemma length_chain_table: "length (chain_table n) = 2 * n"
  by (induction n) (simp_all add: chain_table_Suc chain_table_def)

lemma nbr_row_chain_table:
  "i < n \<Longrightarrow> nbr_row 2 (chain_table n) i = [of_nat (Suc i), - 1]"
proof (induction n)
  case 0
  then show ?case by simp
next
  case (Suc n)
  show ?case
  proof (cases "i < n")
    case True
    then have "nbr_row 2 (chain_table (Suc n)) i = nbr_row 2 (chain_table n) i"
      by (simp add: nbr_row_def chain_table_Suc length_chain_table)
    with Suc.IH [OF True] show ?thesis by simp
  next
    case False
    with Suc.prems have "i = n" by simp
    then show ?thesis
      by (simp add: nbr_row_def chain_table_Suc length_chain_table)
  qed
qed

lemma valid_chain_table:
  assumes "unat npix = n" and "n < 2 ^ 61"
  shows "valid_table 2 (chain_table n) npix"
proof -
  from assms(2) have "4 * length (chain_table n) < 2 ^ 64"
    by (simp add: length_chain_table)
  moreover have "list_all (\<lambda>i. - 1 \<in> set (nbr_row 2 (chain_table n) i)) [0..<unat npix]"
    by (simp add: list_all_iff assms(1) nbr_row_chain_table)
  ultimately show ?thesis
    by (simp add: valid_table_def)
qed

lemma valid_chain_cams: "valid_cams 2 chain_cams"
  by (simp add: valid_cams_def valid_camera_def chain_cams_def valid_chain_table)

subsection \<open>The six digits of a float\<close>

text \<open>
  The format is well defined on every value of a \<^verbatim>\<open>float\<close> other than zero: the decimal
  exponent brackets the value between two powers of ten, the rounded integer is a nearest
  one, and the digits that are laid out are six.
\<close>

lemma count_antitone:
  fixes P :: "nat \<Rightarrow> bool"
  assumes anti: "\<And>j k. j \<le> k \<Longrightarrow> P k \<Longrightarrow> P j"
  shows "k < length (filter P [0..<b]) \<Longrightarrow> P k"
    and "length (filter P [0..<b]) < b \<Longrightarrow> \<not> P (length (filter P [0..<b]))"
proof -
  define c where "c b = length (filter P [0..<b])" for b
  have both: "(\<forall>k < c b. P k) \<and> (c b < b \<longrightarrow> \<not> P (c b))"
  proof (induction b)
    case 0
    show ?case by (simp add: c_def)
  next
    case (Suc b)
    have le: "c b \<le> b"
      using length_filter_le [of P "[0..<b]"] by (simp add: c_def)
    show ?case
    proof (cases "P b")
      case True
      have all: "P k" if "k \<le> b" for k
        using anti [OF that True] .
      then have "filter P [0..<b] = [0..<b]"
        by (simp add: filter_id_conv)
      then have "c (Suc b) = Suc b"
        using True by (simp add: c_def)
      with all show ?thesis
        by (simp add: less_Suc_eq_le)
    next
      case False
      then have eq: "c (Suc b) = c b"
        by (simp add: c_def)
      show ?thesis
      proof (cases "c b = b")
        case True
        with False Suc.IH show ?thesis
          unfolding eq by simp
      next
        case ne: False
        with le have "c b < b" by simp
        with Suc.IH show ?thesis
          unfolding eq by simp
      qed
    qed
  qed
  from both show "k < length (filter P [0..<b]) \<Longrightarrow> P k"
    unfolding c_def by blast
  from both show "length (filter P [0..<b]) < b \<Longrightarrow> \<not> P (length (filter P [0..<b]))"
    unfolding c_def by blast
qed

lemma dec_exp_spec:
  assumes N: "0 < N" and D: "0 < D" and hi: "N < D * 10 ^ 39" and lo: "D \<le> N * 10 ^ 45"
  shows "if 0 \<le> dec_exp N D
         then D * 10 ^ nat (dec_exp N D) \<le> N \<and> N < D * 10 ^ Suc (nat (dec_exp N D))
         else D \<le> N * 10 ^ nat (- dec_exp N D) \<and> N * 10 ^ (nat (- dec_exp N D) - 1) < D"
proof -
  define up where "up = length (filter (\<lambda>k. D * 10 ^ Suc k \<le> N) [0..<39])"
  define down where "down = length (filter (\<lambda>k. N * 10 ^ k < D) [0..<46])"
  have "[1..<40] = map Suc [0..<39]"
    by (simp add: map_Suc_upt)
  then have X: "dec_exp N D = int up - int down"
    by (simp add: dec_exp_def up_def down_def filter_map comp_def)
  have pow: "(10 :: int) ^ j \<le> 10 ^ k" if "j \<le> k" for j k :: nat
    using that by (simp add: power_increasing)
  have up_anti: "D * 10 ^ Suc j \<le> N" if "j \<le> k" and "D * 10 ^ Suc k \<le> N" for j k
  proof -
    from that(1) have "(10 :: int) ^ Suc j \<le> 10 ^ Suc k"
      by (intro pow) simp
    with D have "D * 10 ^ Suc j \<le> D * 10 ^ Suc k"
      by (simp add: mult_left_mono)
    with that(2) show ?thesis by simp
  qed
  have down_anti: "N * 10 ^ j < D" if "j \<le> k" and "N * 10 ^ k < D" for j k
  proof -
    from N pow [OF that(1)] have "N * 10 ^ j \<le> N * 10 ^ k"
      by (simp add: mult_left_mono)
    with that(2) show ?thesis by simp
  qed
  have u1: "D * 10 ^ Suc k \<le> N" if "k < up" for k
    using count_antitone(1) [of "\<lambda>k. D * 10 ^ Suc k \<le> N" k 39] up_anti that
    unfolding up_def by blast
  have u2: "\<not> D * 10 ^ Suc up \<le> N" if "up < 39"
    using count_antitone(2) [of "\<lambda>k. D * 10 ^ Suc k \<le> N" 39] up_anti that
    unfolding up_def by blast
  have d1: "N * 10 ^ k < D" if "k < down" for k
    using count_antitone(1) [of "\<lambda>k. N * 10 ^ k < D" k 46] down_anti that
    unfolding down_def by blast
  have d2: "\<not> N * 10 ^ down < D" if "down < 46"
    using count_antitone(2) [of "\<lambda>k. N * 10 ^ k < D" 46] down_anti that
    unfolding down_def by blast
  have up39: "up \<le> 39"
    using length_filter_le [of "\<lambda>k. D * 10 ^ Suc k \<le> N" "[0..<39]"] by (simp add: up_def)
  have down46: "down \<le> 46"
    using length_filter_le [of "\<lambda>k. N * 10 ^ k < D" "[0..<46]"] by (simp add: down_def)
  show ?thesis
  proof (cases "D \<le> N")
    case True
    have "\<not> N * 10 ^ k < D" for k :: nat
    proof -
      from N have "N * 1 \<le> N * 10 ^ k"
        by (intro mult_left_mono) simp_all
      with True show ?thesis by simp
    qed
    then have down0: "down = 0"
      by (simp add: down_def)
    have l: "D * 10 ^ up \<le> N"
    proof (cases up)
      case 0
      with True show ?thesis by simp
    next
      case (Suc m)
      then have "m < up" by simp
      from u1 [OF this] show ?thesis
        by (simp add: Suc)
    qed
    have r: "N < D * 10 ^ Suc up"
    proof (cases "up < 39")
      case True
      from u2 [OF True] show ?thesis by simp
    next
      case False
      with up39 have up: "up = 39" by simp
      then have "38 < up" by simp
      from u1 [OF this] hi show ?thesis
        by simp
    qed
    from l r show ?thesis
      by (simp add: X down0)
  next
    case False
    then have ND: "N < D" by simp
    have "\<not> D * 10 ^ Suc k \<le> N" for k :: nat
    proof -
      have "(1 :: int) \<le> 10 ^ Suc k"
        by (rule one_le_power) simp
      with D have "D * 1 \<le> D * 10 ^ Suc k"
        by (intro mult_left_mono) simp_all
      with ND show ?thesis by simp
    qed
    then have up0: "up = 0"
      by (simp add: up_def)
    have pos: "0 < down"
    proof (rule ccontr)
      assume "\<not> 0 < down"
      then have "down = 0" by simp
      with d2 ND show False by simp
    qed
    have l: "D \<le> N * 10 ^ down"
    proof (cases "down < 46")
      case True
      from d2 [OF True] show ?thesis by simp
    next
      case False
      with down46 have "45 < down" by simp
      from d1 [OF this] lo show ?thesis
        by simp
    qed
    from pos have "down - 1 < down" by simp
    from d1 [OF this] have r: "N * 10 ^ (down - 1) < D" .
    from l r pos show ?thesis
      by (simp add: X up0)
  qed
qed

lemma round_half_even_nearest:
  assumes "0 < den"
  shows "2 * \<bar>num - round_half_even num den * den\<bar> \<le> den"
proof -
  have r: "0 \<le> num mod den" "num mod den < den"
    using assms by simp_all
  have n: "num = num div den * den + num mod den"
    by simp
  have "num - (num div den) * den = num mod den"
    by (simp add: minus_div_mult_eq_mod)
  moreover have "num - (num div den + 1) * den = num mod den - den"
    by (simp add: algebra_simps minus_div_mult_eq_mod [symmetric])
  ultimately show ?thesis
    using r by (auto simp: round_half_even_def Let_def)
qed

lemma round_half_even_bounds:
  assumes "0 < den" and "L * den \<le> num" and "num < U * den"
  shows "L \<le> round_half_even num den" and "round_half_even num den \<le> U"
proof -
  from assms(1,2) have "L * den div den \<le> num div den"
    by (intro zdiv_mono1)
  with assms(1) have l: "L \<le> num div den"
    by simp
  have u: "num div den < U"
  proof (rule ccontr)
    assume "\<not> num div den < U"
    then have "U \<le> num div den" by simp
    with assms(1) have "U * den \<le> num div den * den"
      by (simp add: mult_right_mono)
    moreover have "0 \<le> num mod den"
      using assms(1) by simp
    moreover have "num div den * den + num mod den = num"
      by simp
    ultimately show False
      using assms(3) by linarith
  qed
  from l u show "L \<le> round_half_even num den" and "round_half_even num den \<le> U"
    by (auto simp: round_half_even_def Let_def)
qed

lemma sig6_scaled:
  assumes N: "0 < N" and D: "0 < D" and hi: "N < D * 10 ^ 39" and lo: "D \<le> N * 10 ^ 45"
  obtains num den where "0 < den" and "100000 * den \<le> num" and "num < 1000000 * den"
    and "sig6 N D = (let d = round_half_even num den
                     in if d = 1000000 then (100000, dec_exp N D + 1) else (d, dec_exp N D))"
proof -
  define X where "X = dec_exp N D"
  note spec = dec_exp_spec [OF assms, folded X_def]
  have p5: "(10 :: int) ^ 5 = 100000" and p6: "(10 :: int) ^ 6 = 1000000"
    by simp_all
  show thesis
  proof (cases "X \<le> 5")
    case small: True
    have s: "sig6 N D = (let d = round_half_even (N * 10 ^ nat (5 - X)) D
        in if d = 1000000 then (100000, dec_exp N D + 1) else (d, dec_exp N D))"
      using small by (simp add: sig6_def X_def Let_def)
    show thesis
    proof (cases "0 \<le> X")
      case True
      define k where "k = nat X"
      from True small have k: "k \<le> 5" and e: "nat (5 - X) = 5 - k"
        by (simp_all add: k_def)
      from spec True have l: "D * 10 ^ k \<le> N" and r: "N < D * 10 ^ Suc k"
        by (simp_all add: k_def)
      from k have "k + (5 - k) = 5" and "Suc k + (5 - k) = 6"
        by simp_all
      then have a: "(10 :: int) ^ k * 10 ^ (5 - k) = 10 ^ 5"
        and b: "(10 :: int) ^ Suc k * 10 ^ (5 - k) = 10 ^ 6"
        by (simp_all only: power_add [symmetric])
      from l have "D * 10 ^ k * 10 ^ (5 - k) \<le> N * 10 ^ (5 - k)"
        by (intro mult_right_mono) simp_all
      then have 1: "100000 * D \<le> N * 10 ^ (5 - k)"
        using a by (simp add: mult.assoc)
      from r have "N * 10 ^ (5 - k) < D * 10 ^ Suc k * 10 ^ (5 - k)"
        by (intro mult_strict_right_mono) simp_all
      then have 2: "N * 10 ^ (5 - k) < 1000000 * D"
        using b by (simp only: mult.assoc p6)
      from D 1 2 s show thesis
        unfolding e by (rule that)
    next
      case False
      define c where "c = nat (- X)"
      from False have c: "0 < c" and e: "nat (5 - X) = 5 + c"
        by (simp_all add: c_def)
      from spec False have l: "D \<le> N * 10 ^ c" and r: "N * 10 ^ (c - 1) < D"
        by (simp_all add: c_def)
      from c have "c - 1 + 6 = 5 + c"
        by simp
      then have b: "(10 :: int) ^ (c - 1) * 10 ^ 6 = 10 ^ (5 + c)"
        by (simp only: power_add [symmetric])
      from l have "D * 10 ^ 5 \<le> N * 10 ^ c * 10 ^ 5"
        by (intro mult_right_mono) simp_all
      then have 1: "100000 * D \<le> N * 10 ^ (5 + c)"
        by (simp add: power_add mult.assoc mult.commute)
      from r have "N * 10 ^ (c - 1) * 10 ^ 6 < D * 10 ^ 6"
        by (intro mult_strict_right_mono) simp_all
      then have "N * 10 ^ (5 + c) < D * 10 ^ 6"
        using b by (simp only: mult.assoc)
      then have 2: "N * 10 ^ (5 + c) < 1000000 * D"
        by simp
      from D 1 2 s show thesis
        unfolding e by (rule that)
    qed
  next
    case big: False
    define k where "k = nat X"
    from big have k: "6 \<le> k" and e: "nat (X - 5) = k - 5" and X: "0 \<le> X"
      by (simp_all add: k_def)
    have s: "sig6 N D = (let d = round_half_even N (D * 10 ^ (k - 5))
        in if d = 1000000 then (100000, dec_exp N D + 1) else (d, dec_exp N D))"
      using big e by (simp add: sig6_def X_def [symmetric] Let_def)
    from spec X have l: "D * 10 ^ k \<le> N" and r: "N < D * 10 ^ Suc k"
      by (simp_all add: k_def)
    from k have "5 + (k - 5) = k" and "6 + (k - 5) = Suc k"
      by simp_all
    then have a: "(10 :: int) ^ 5 * 10 ^ (k - 5) = 10 ^ k"
      and b: "(10 :: int) ^ 6 * 10 ^ (k - 5) = 10 ^ Suc k"
      by (simp_all only: power_add [symmetric])
    have den: "0 < D * 10 ^ (k - 5)"
      using D by simp
    have "D * (10 ^ 5 * 10 ^ (k - 5)) = 100000 * (D * 10 ^ (k - 5))"
      unfolding p5 by (rule mult.left_commute)
    with l have 1: "100000 * (D * 10 ^ (k - 5)) \<le> N"
      unfolding a by (simp only:)
    have "D * (10 ^ 6 * 10 ^ (k - 5)) = 1000000 * (D * 10 ^ (k - 5))"
      unfolding p6 by (rule mult.left_commute)
    with r have 2: "N < 1000000 * (D * 10 ^ (k - 5))"
      unfolding b by (simp only:)
    from den 1 2 s show thesis
      by (rule that)
  qed
qed

lemma sig6_range:
  assumes "0 < N" and "0 < D" and "N < D * 10 ^ 39" and "D \<le> N * 10 ^ 45"
  shows "100000 \<le> fst (sig6 N D)" and "fst (sig6 N D) < 1000000"
proof -
  from assms obtain num den where den: "0 < den"
    and l: "100000 * den \<le> num" and u: "num < 1000000 * den"
    and s: "sig6 N D = (let d = round_half_even num den
                     in if d = 1000000 then (100000, dec_exp N D + 1) else (d, dec_exp N D))"
    by (rule sig6_scaled)
  note b = round_half_even_bounds [OF den l u]
  from b show "100000 \<le> fst (sig6 N D)" and "fst (sig6 N D) < 1000000"
    by (simp_all add: s Let_def)
qed

lemma float_fraction_bounds:
  assumes "is_float32 f" and "fl_mantissa f \<noteq> 0"
  shows "0 < fl_num f" and "0 < fl_den f" and "fl_num f < fl_den f * 10 ^ 39"
    and "fl_den f \<le> fl_num f * 10 ^ 45"
proof -
  define m e where "m = fl_mantissa f" and "e = fl_exponent f"
  from assms have m: "1 \<le> m" "m < 2 ^ 24" and e: "- 149 \<le> e" "e \<le> 104"
    by (simp_all add: is_float32_def m_def e_def)
  show "0 < fl_den f"
    by (simp add: fl_den_def)
  show "0 < fl_num f"
    using m by (simp add: fl_num_def m_def [symmetric])
  show "fl_num f < fl_den f * 10 ^ 39"
  proof (cases "0 \<le> e")
    case True
    with e have "nat e \<le> 104" by simp
    then have "(2 :: int) ^ nat e \<le> 2 ^ 104"
      by (intro power_increasing) simp_all
    with m have "m * 2 ^ nat e \<le> m * 2 ^ 104"
      by (intro mult_left_mono) simp_all
    also from m have "\<dots> < 2 ^ 24 * 2 ^ 104"
      by (intro mult_strict_right_mono) simp_all
    also have "\<dots> < (10 :: int) ^ 39"
      by simp
    finally show ?thesis
      using True by (simp add: fl_num_def fl_den_def m_def e_def)
  next
    case False
    have p: "(1 :: int) \<le> 2 ^ nat (- e)"
      by (rule one_le_power) simp
    from m have "m < 1 * 10 ^ 39"
      by simp
    also from p have "\<dots> \<le> 2 ^ nat (- e) * 10 ^ 39"
      by (intro mult_right_mono) simp_all
    finally show ?thesis
      using False by (simp add: fl_num_def fl_den_def m_def e_def)
  qed
  show "fl_den f \<le> fl_num f * 10 ^ 45"
  proof (cases "0 \<le> e")
    case True
    from m have "0 < m * 2 ^ nat e"
      by simp
    then have "1 * 1 \<le> m * 2 ^ nat e * 10 ^ 45"
      by (intro mult_mono) simp_all
    with True show ?thesis
      by (simp add: fl_num_def fl_den_def m_def e_def)
  next
    case False
    with e have "nat (- e) \<le> 149" by simp
    then have "(2 :: int) ^ nat (- e) \<le> 2 ^ 149"
      by (intro power_increasing) simp_all
    also have "\<dots> \<le> 1 * (10 :: int) ^ 45"
      by simp
    also from m have "\<dots> \<le> m * 10 ^ 45"
      by (intro mult_right_mono) simp_all
    finally show ?thesis
      using False by (simp add: fl_num_def fl_den_def m_def e_def)
  qed
qed

lemma show_float_six_digits:
  assumes "is_float32 f" and "fl_mantissa f \<noteq> 0"
  shows "100000 \<le> fst (sig6 (fl_num f) (fl_den f))"
    and "fst (sig6 (fl_num f) (fl_den f)) < 1000000"
  using sig6_range [OF float_fraction_bounds [OF assms]] .

section \<open>The claims\<close>

text \<open>
  Concrete runs are evaluated by unfolding the loops with the simplifier; comparisons of
  \<^verbatim>\<open>size_t\<close> values are decided on their unsigned values.
\<close>

lemmas run_simps = neighborsToJsonArray_def nbr_rows.simps nbr_scan.simps nbr_read_def read_at_def
  show_int_def Let_def arrayToJsonArray_def array_loop.simps word_le_nat_alt word_less_nat_alt

lemmas layout_simps = record_json_def camera_record_def neighbor_lists_def emitted_def scanned_def
  nbr_row_def json_array_def nbr_json_def list_json_def show_int_def upt_rec word_le_nat_alt

lemmas float_simps = show_float_def sig6_def dec_exp_def round_half_even_def style_f_def
  style_e_def fraction_def strip_zeros_def fl_num_def fl_den_def is_float32_def upt_rec Let_def

subsection \<open>The neighbor list of a pixel\<close>

text \<open>
  Claim C1, as amended. For every valid table and every pixel index \<open>i\<close> below the pixel
  count \<open>npix\<close>, the neighbor list emitted for pixel \<open>i\<close> is the result of scanning row \<open>i\<close>
  from the left, stopping at the first \<open>-1\<close>, and keeping exactly the scanned values \<open>v\<close>
  with \<open>0 \<le> v < npix\<close>, in their order and with their duplicates: the text returned is the
  layout of these lists.
\<close>

theorem neighbor_list_of_row:
  assumes "valid_table W neighbors npix"
  shows "neighborsToJsonArray W neighbors npix =
    Inr (nbr_json (map (\<lambda>i. range_neighbor_list (unat npix) (map sint (nbr_row W neighbors i)))
                    [0..<unat npix]))"
  using neighborsToJsonArray_text [OF assms]
  by (simp add: neighbor_lists_def emitted_range [OF valid_table_npix [OF assms]])

text \<open>
  The run of the truncation scenario: three pixels in use on a table of five rows, whose
  row 0 is \<open>1, 4, -1\<close>.
\<close>

theorem neighbor_list_of_row_witness:
  "valid_table 3 [1, 4, - 1, 0, 2, - 1, 1, - 1, - 1, 9, 9, 9, 9, 9, 9] 3 \<and>
   neighborsToJsonArray 3 [1, 4, - 1, 0, 2, - 1, 1, - 1, - 1, 9, 9, 9, 9, 9, 9] 3 =
     Inr ''[ [ 1 ], [ 0, 2 ], [ 1 ] ]''"
proof -
  have v: "valid_table 3 [1, 4, - 1, 0, 2, - 1, 1, - 1, - 1, 9, 9, 9, 9, 9, 9] 3"
    by (simp add: valid_table_def nbr_row_def upt_rec)
  have "nbr_json (map (\<lambda>i. range_neighbor_list (unat (3 :: size_t))
      (map sint (nbr_row 3 [1, 4, - 1, 0, 2, - 1, 1, - 1, - 1, 9, 9, 9, 9, 9, 9 :: c_int] i)))
      [0..<unat (3 :: size_t)]) = ''[ [ 1 ], [ 0, 2 ], [ 1 ] ]''"
    by (simp add: nbr_json_def list_json_def range_neighbor_list_def nbr_row_def upt_rec
        show_int_def)
  with neighbor_list_of_row [OF v] v show ?thesis
    by simp
qed

text \<open>
  With the test \<open>v < npix\<close> alone, as C1 states it, the row \<open>-2, -1\<close> of a camera of one
  pixel would yield the list \<open>-2\<close>. The code compares unsigned and emits nothing.
\<close>

theorem spec_neighbor_list_counterexample:
  "neighborsToJsonArray 2 [- 2, - 1] 1 = Inr ''[ [  ] ]'' \<and>
   nbr_json [spec_neighbor_list 1 (map sint (nbr_row 2 [- 2, - 1] 0))] = ''[ [ -2 ] ]''"
  by (simp add: run_simps nbr_json_def list_json_def spec_neighbor_list_def nbr_row_def)

subsection \<open>Where the scan of a row ends\<close>

text \<open>
  Claim C2, as amended. For a row that holds a sentinel within its width the scan ends at
  the column of the first sentinel, so that no element at a column at or beyond the width
  is read: the loop ends with \<open>j\<close> at the position of the first \<open>-1\<close> of the row, which is
  below \<open>W\<close>, whatever the stream and the flag were. The loop itself never compares \<open>j\<close>
  with the width.
\<close>

theorem scan_ends_within_row:
  assumes "- 1 \<in> set (nbr_row W neighbors i)" and "int W \<le> 2 ^ 31"
  shows "(\<exists>oss'. nbr_scan W neighbors i numTubes 0 (oss, first) =
            Inr (oss', length (scanned (nbr_row W neighbors i)))) \<and>
         length (scanned (nbr_row W neighbors i)) < W"
proof -
  note r = row_sentinel [OF assms(1)]
  from r(1) have "- 1 \<in> set (drop (i * W + 0) neighbors)"
    by simp
  moreover from r(4) assms(2) have "0 + length (scanned (drop (i * W + 0) neighbors)) < 2 ^ 31"
    by (simp add: r(2))
  ultimately have "nbr_scan W neighbors i numTubes 0 (oss, first) =
      Inr (oss @ (if first then commas else tail_items)
             (map (\<lambda>v. show_int (sint v)) (emitted numTubes (drop (i * W + 0) neighbors))),
           0 + length (scanned (drop (i * W + 0) neighbors)))"
    by (rule nbr_scan_text)
  then have "\<exists>oss'. nbr_scan W neighbors i numTubes 0 (oss, first) =
      Inr (oss', length (scanned (nbr_row W neighbors i)))"
    by (simp add: r(2))
  with r(4) show ?thesis
    by simp
qed

theorem scan_ends_within_row_witness:
  "- 1 \<in> set (nbr_row 3 [1, 4, - 1, 0, 2, - 1] 1) \<and> int 3 \<le> 2 ^ 31 \<and>
   nbr_scan 3 [1, 4, - 1, 0, 2, - 1] 1 2 0 (''[ '', True) = Inr (''[ 0'', 2) \<and>
   length (scanned (nbr_row 3 [1, 4, - 1, 0, 2, - 1] 1)) = 2"
proof -
  have m: "- 1 \<in> set (nbr_row 3 [1, 4, - 1, 0, 2, - 1] 1)"
    by (simp add: nbr_row_def)
  have w: "int 3 \<le> 2 ^ 31"
    by simp
  have l: "length (scanned (nbr_row 3 [1, 4, - 1, 0, 2, - 1] 1)) = 2"
    by (simp add: nbr_row_def scanned_def)
  from scan_ends_within_row [OF m w, of 2 "''[ ''" True]
  obtain oss' where "nbr_scan 3 [1, 4, - 1, 0, 2, - 1] 1 2 0 (''[ '', True) = Inr (oss', 2)"
    unfolding l by blast
  moreover have "nbr_scan 3 [1, 4, - 1, 0, 2, - 1] 1 2 0 (''[ '', True) = Inr (''[ 0'', 2)"
    by (simp add: run_simps)
  ultimately show ?thesis
    using m w l by simp
qed

text \<open>
  A row without a sentinel: in a table of width 2 whose row 0 is \<open>0, 1\<close>, the scan of row 0
  reads on and ends at column 2, on the sentinel of row 1.
\<close>

theorem scan_past_width_counterexample:
  "nbr_row 2 [0, 1, - 1, - 1] 0 = [0, 1] \<and>
   nbr_scan 2 [0, 1, - 1, - 1] 0 1 0 ('''', True) = Inr (''0'', 2)"
  by (simp add: run_simps nbr_row_def)

subsection \<open>No shape error\<close>

text \<open>
  Claim C3, as amended. For a valid camera, that is when each of the first \<open>npix\<close> rows
  holds a \<open>-1\<close> within its width and the arrays hold \<open>npix\<close> values, the encoding completes
  without an error and appends the text of the camera's record to the document. The code
  holds no check of the shape of its input.
\<close>

theorem camera_encoding_completes:
  assumes "valid_camera W posX posY radius neighbors npix"
  shows "writeDataSetToJson showf W json nadc posX posY radius neighbors npix more' =
    Inr (json @ record_json showf (camera_record nadc posX posY radius W neighbors npix) more')"
  using assms by (rule writeDataSetToJson_camera)

theorem camera_encoding_completes_witness:
  \<open>valid_camera 3 [10, 11, 12, 13, 14 :: nat] [20, 21, 22, 23, 24] [1, 1, 1, 1, 1]
     [1, 4, - 1, 0, 2, - 1, 1, - 1, - 1, 9, 9, 9, 9, 9, 9] 3 \<and>
   writeDataSetToJson show_nat 3 ''J'' 384 [10, 11, 12, 13, 14] [20, 21, 22, 23, 24]
       [1, 1, 1, 1, 1] [1, 4, - 1, 0, 2, - 1, 1, - 1, - 1, 9, 9, 9, 9, 9, 9] 3 False =
     Inr (''J  "384": {\<newline>'' @
          ''    "nadc": 384,\<newline>'' @
          ''    "npix": 3,\<newline>'' @
          ''    "x": [10, 11, 12],\<newline>'' @
          ''    "y": [20, 21, 22],\<newline>'' @
          ''    "r": [1, 1, 1],\<newline>'' @
          ''    "neighbors": [ [ 1 ], [ 0, 2 ], [ 1 ] ]\<newline>'' @
          ''  }\<newline>'')\<close>
proof -
  have v: "valid_camera 3 [10, 11, 12, 13, 14 :: nat] [20, 21, 22, 23, 24] [1, 1, 1, 1, 1]
      [1, 4, - 1, 0, 2, - 1, 1, - 1, - 1, 9, 9, 9, 9, 9, 9] 3"
    by (simp add: valid_camera_def valid_table_def nbr_row_def upt_rec)
  have \<open>writeDataSetToJson show_nat 3 ''J'' 384 [10, 11, 12, 13, 14] [20, 21, 22, 23, 24]
       [1, 1, 1, 1, 1] [1, 4, - 1, 0, 2, - 1, 1, - 1, - 1, 9, 9, 9, 9, 9, 9] 3 False =
     Inr (''J  "384": {\<newline>'' @
          ''    "nadc": 384,\<newline>'' @
          ''    "npix": 3,\<newline>'' @
          ''    "x": [10, 11, 12],\<newline>'' @
          ''    "y": [20, 21, 22],\<newline>'' @
          ''    "r": [1, 1, 1],\<newline>'' @
          ''    "neighbors": [ [ 1 ], [ 0, 2 ], [ 1 ] ]\<newline>'' @
          ''  }\<newline>'')\<close>
    unfolding camera_encoding_completes [OF v] by (simp add: layout_simps)
  with v show ?thesis
    by (intro conjI)
qed

text \<open>
  A camera of one pixel whose row \<open>0, 1\<close> has no sentinel within its width 2: no error
  stops the encoding. The record is written, with the neighbor list \<open>0, 0\<close> that the scan
  collected from row 0 and from the row behind it.
\<close>

theorem missing_sentinel_counterexample:
  \<open>- 1 \<notin> set (nbr_row 2 [0, 1, 0, - 1] 0) \<and>
   writeDataSetToJson show_nat 2 '''' 12 [5] [6] [7] [0, 1, 0, - 1] 1 False =
     Inr (''  "12": {\<newline>'' @
          ''    "nadc": 12,\<newline>'' @
          ''    "npix": 1,\<newline>'' @
          ''    "x": [5],\<newline>'' @
          ''    "y": [6],\<newline>'' @
          ''    "r": [7],\<newline>'' @
          ''    "neighbors": [ [ 0, 0 ] ]\<newline>'' @
          ''  }\<newline>'')\<close>
  by (simp add: writeDataSetToJson_def run_simps nbr_row_def)

subsection \<open>Emitted indices are pixel indices\<close>

text \<open>
  Claim C4. For every valid table, the text returned is the layout of \<open>npix\<close> neighbor
  lists, and every integer in every one of them lies in the interval from 0 up to, but
  excluding, \<open>npix\<close>.
\<close>

theorem neighbor_indices_in_range:
  assumes "valid_table W neighbors npix"
  shows "neighborsToJsonArray W neighbors npix = Inr (nbr_json (neighbor_lists W neighbors npix)) \<and>
    length (neighbor_lists W neighbors npix) = unat npix \<and>
    (\<forall>row \<in> set (neighbor_lists W neighbors npix). \<forall>v \<in> set row. 0 \<le> v \<and> v < int (unat npix))"
proof -
  have n: "unat npix < 2 ^ 63"
    using assms by (rule valid_table_npix)
  have "0 \<le> v \<and> v < int (unat npix)"
    if "row \<in> set (neighbor_lists W neighbors npix)" and "v \<in> set row" for row v
    using that emitted_bounds [OF n] by (auto simp: neighbor_lists_def)
  then show ?thesis
    using neighborsToJsonArray_text [OF assms] by (simp add: neighbor_lists_def)
qed

theorem neighbor_indices_in_range_witness:
  "valid_table 3 [1, 4, - 1, - 2, 2, - 1, 1, 1, - 1, 9, 9, 9] 3 \<and>
   neighbor_lists 3 [1, 4, - 1, - 2, 2, - 1, 1, 1, - 1, 9, 9, 9] 3 = [[1], [2], [1, 1]] \<and>
   neighborsToJsonArray 3 [1, 4, - 1, - 2, 2, - 1, 1, 1, - 1, 9, 9, 9] 3 =
     Inr ''[ [ 1 ], [ 2 ], [ 1, 1 ] ]''"
proof -
  have v: "valid_table 3 [1, 4, - 1, - 2, 2, - 1, 1, 1, - 1, 9, 9, 9] 3"
    by (simp add: valid_table_def nbr_row_def upt_rec)
  have l: "neighbor_lists 3 [1, 4, - 1, - 2, 2, - 1, 1, 1, - 1, 9, 9, 9] 3 = [[1], [2], [1, 1]]"
    by (simp add: layout_simps)
  show ?thesis
    using v l neighbor_indices_in_range [OF v]
    by (simp add: nbr_json_def list_json_def show_int_def)
qed

subsection \<open>Two records with one key\<close>

text \<open>
  Claim C5, as amended. When two valid cameras with the same channel count are written to
  one document, the document holds both records under that key, the earlier one first:
  the second call appends its record behind the first, and nothing is overwritten or
  removed.
\<close>

theorem same_key_entries_both_written:
  assumes "valid_camera W posX1 posY1 radius1 neighbors1 npix1"
    and "valid_camera W posX2 posY2 radius2 neighbors2 npix2"
    and "writeDataSetToJson showf W json nadc posX1 posY1 radius1 neighbors1 npix1 more1 =
      Inr json1"
  shows "writeDataSetToJson showf W json1 nadc posX2 posY2 radius2 neighbors2 npix2 more2 =
    Inr (json @ record_json showf (camera_record nadc posX1 posY1 radius1 W neighbors1 npix1) more1
              @ record_json showf (camera_record nadc posX2 posY2 radius2 W neighbors2 npix2) more2)"
proof -
  from assms(3) have "json1 =
      json @ record_json showf (camera_record nadc posX1 posY1 radius1 W neighbors1 npix1) more1"
    by (simp add: writeDataSetToJson_camera [OF assms(1)])
  then show ?thesis
    by (simp add: writeDataSetToJson_camera [OF assms(2)])
qed

theorem same_key_entries_both_written_witness:
  \<open>valid_camera 1 [1 :: nat] [2] [3] [- 1] 1 \<and> valid_camera 1 [4 :: nat] [5] [6] [- 1] 1 \<and>
   writeDataSetToJson show_nat 1 ''{'' 384 [1] [2] [3] [- 1] 1 True =
     Inr (''{'' @ ''  "384": {\<newline>'' @
          ''    "nadc": 384,\<newline>'' @
          ''    "npix": 1,\<newline>'' @
          ''    "x": [1],\<newline>'' @
          ''    "y": [2],\<newline>'' @
          ''    "r": [3],\<newline>'' @
          ''    "neighbors": [ [  ] ]\<newline>'' @
          ''  },\<newline>'') \<and>
   writeDataSetToJson show_nat 1 (''{'' @ ''  "384": {\<newline>'' @
          ''    "nadc": 384,\<newline>'' @
          ''    "npix": 1,\<newline>'' @
          ''    "x": [1],\<newline>'' @
          ''    "y": [2],\<newline>'' @
          ''    "r": [3],\<newline>'' @
          ''    "neighbors": [ [  ] ]\<newline>'' @
          ''  },\<newline>'')
       384 [4] [5] [6] [- 1] 1 False =
     Inr (''{'' @ ''  "384": {\<newline>'' @
          ''    "nadc": 384,\<newline>'' @
          ''    "npix": 1,\<newline>'' @
          ''    "x": [1],\<newline>'' @
          ''    "y": [2],\<newline>'' @
          ''    "r": [3],\<newline>'' @
          ''    "neighbors": [ [  ] ]\<newline>'' @
          ''  },\<newline>'' @
          ''  "384": {\<newline>'' @
          ''    "nadc": 384,\<newline>'' @
          ''    "npix": 1,\<newline>'' @
          ''    "x": [4],\<newline>'' @
          ''    "y": [5],\<newline>'' @
          ''    "r": [6],\<newline>'' @
          ''    "neighbors": [ [  ] ]\<newline>'' @
          ''  }\<newline>'')\<close>
proof -
  have v1: "valid_camera 1 [1 :: nat] [2] [3] [- 1] 1"
    and v2: "valid_camera 1 [4 :: nat] [5] [6] [- 1] 1"
    by (simp_all add: valid_camera_def valid_table_def nbr_row_def upt_rec)
  have first: \<open>writeDataSetToJson show_nat 1 ''{'' 384 [1] [2] [3] [- 1] 1 True =
     Inr (''{'' @ ''  "384": {\<newline>'' @
          ''    "nadc": 384,\<newline>'' @
          ''    "npix": 1,\<newline>'' @
          ''    "x": [1],\<newline>'' @
          ''    "y": [2],\<newline>'' @
          ''    "r": [3],\<newline>'' @
          ''    "neighbors": [ [  ] ]\<newline>'' @
          ''  },\<newline>'')\<close>
    unfolding writeDataSetToJson_camera [OF v1] by (simp add: layout_simps)
  have second: \<open>writeDataSetToJson show_nat 1 (''{'' @ ''  "384": {\<newline>'' @
          ''    "nadc": 384,\<newline>'' @
          ''    "npix": 1,\<newline>'' @
          ''    "x": [1],\<newline>'' @
          ''    "y": [2],\<newline>'' @
          ''    "r": [3],\<newline>'' @
          ''    "neighbors": [ [  ] ]\<newline>'' @
          ''  },\<newline>'')
       384 [4] [5] [6] [- 1] 1 False =
     Inr (''{'' @ ''  "384": {\<newline>'' @
          ''    "nadc": 384,\<newline>'' @
          ''    "npix": 1,\<newline>'' @
          ''    "x": [1],\<newline>'' @
          ''    "y": [2],\<newline>'' @
          ''    "r": [3],\<newline>'' @
          ''    "neighbors": [ [  ] ]\<newline>'' @
          ''  },\<newline>'' @
          ''  "384": {\<newline>'' @
          ''    "nadc": 384,\<newline>'' @
          ''    "npix": 1,\<newline>'' @
          ''    "x": [4],\<newline>'' @
          ''    "y": [5],\<newline>'' @
          ''    "r": [6],\<newline>'' @
          ''    "neighbors": [ [  ] ]\<newline>'' @
          ''  }\<newline>'')\<close>
    unfolding same_key_entries_both_written [OF v1 v2 first, of False]
    by (simp add: layout_simps)
  show ?thesis
    by (intro conjI v1 v2 first second)
qed

text \<open>
  Two cameras both keyed 384, written one after the other into an empty stream: the text
  holds two entries \<^verbatim>\<open>"384"\<close>, not one.
\<close>

theorem duplicate_key_counterexample:
  \<open>writeDataSetToJson show_nat 1 '''' 384 [1] [2] [3] [- 1] 1 True =
     Inr (''  "384": {\<newline>'' @
          ''    "nadc": 384,\<newline>'' @
          ''    "npix": 1,\<newline>'' @
          ''    "x": [1],\<newline>'' @
          ''    "y": [2],\<newline>'' @
          ''    "r": [3],\<newline>'' @
          ''    "neighbors": [ [  ] ]\<newline>'' @
          ''  },\<newline>'') \<and>
   writeDataSetToJson show_nat 1
      (''  "384": {\<newline>'' @
          ''    "nadc": 384,\<newline>'' @
          ''    "npix": 1,\<newline>'' @
          ''    "x": [1],\<newline>'' @
          ''    "y": [2],\<newline>'' @
          ''    "r": [3],\<newline>'' @
          ''    "neighbors": [ [  ] ]\<newline>'' @
          ''  },\<newline>'')
      384 [4] [5] [6] [- 1] 1 False =
     Inr (''  "384": {\<newline>'' @
          ''    "nadc": 384,\<newline>'' @
          ''    "npix": 1,\<newline>'' @
          ''    "x": [1],\<newline>'' @
          ''    "y": [2],\<newline>'' @
          ''    "r": [3],\<newline>'' @
          ''    "neighbors": [ [  ] ]\<newline>'' @
          ''  },\<newline>'' @
          ''  "384": {\<newline>'' @
          ''    "nadc": 384,\<newline>'' @
          ''    "npix": 1,\<newline>'' @
          ''    "x": [4],\<newline>'' @
          ''    "y": [5],\<newline>'' @
          ''    "r": [6],\<newline>'' @
          ''    "neighbors": [ [  ] ]\<newline>'' @
          ''  }\<newline>'')\<close>
  by (simp add: writeDataSetToJson_def run_simps)

subsection \<open>The text of a coordinate\<close>

text \<open>
  Claim C6, as amended. For every pixel index \<open>i\<close> below the pixel count, the emitted value is
  the source value \<open>array[i]\<close>, in the order of the indices, in the default format of the
  stream for a \<^verbatim>\<open>float\<close>: rounded to six significant decimal digits and laid out as
  \<^verbatim>\<open>%g\<close> does. The same holds for \<open>x\<close>, \<open>y\<close> and \<open>r\<close>, which are written by the same function.
\<close>

theorem float_values_in_default_format:
  assumes "unat npix \<le> length array"
  shows "arrayToJsonArray show_float array npix =
    Inr (json_array (map show_float (take (unat npix) array)))"
  using assms by (rule arrayToJsonArray_text)

text \<open>
  The values are \<open>0.5\<close>, the \<^verbatim>\<open>float\<close> nearest to \<open>-0.117\<close>, the \<^verbatim>\<open>float\<close> nearest to
  \<open>123456.789\<close>, which is \<open>123456.7890625\<close>, then \<open>1000000\<close> and \<open>2.5\<close>; four pixels are in
  use.
\<close>

theorem float_values_in_default_format_witness:
  "unat (4 :: size_t) \<le> length
     [\<lparr>fl_negative = False, fl_mantissa = 1, fl_exponent = - 1\<rparr>,
      \<lparr>fl_negative = True, fl_mantissa = 15703474, fl_exponent = - 27\<rparr>,
      \<lparr>fl_negative = False, fl_mantissa = 15802469, fl_exponent = - 7\<rparr>,
      \<lparr>fl_negative = False, fl_mantissa = 1000000, fl_exponent = 0\<rparr>,
      \<lparr>fl_negative = False, fl_mantissa = 5, fl_exponent = - 1\<rparr>] \<and>
   arrayToJsonArray show_float
     [\<lparr>fl_negative = False, fl_mantissa = 1, fl_exponent = - 1\<rparr>,
      \<lparr>fl_negative = True, fl_mantissa = 15703474, fl_exponent = - 27\<rparr>,
      \<lparr>fl_negative = False, fl_mantissa = 15802469, fl_exponent = - 7\<rparr>,
      \<lparr>fl_negative = False, fl_mantissa = 1000000, fl_exponent = 0\<rparr>,
      \<lparr>fl_negative = False, fl_mantissa = 5, fl_exponent = - 1\<rparr>] 4 =
     Inr ''[0.5, -0.117, 123457, 1e+06]''"
proof -
  have l: "unat (4 :: size_t) \<le> length
     [\<lparr>fl_negative = False, fl_mantissa = 1, fl_exponent = - 1\<rparr>,
      \<lparr>fl_negative = True, fl_mantissa = 15703474, fl_exponent = - 27\<rparr>,
      \<lparr>fl_negative = False, fl_mantissa = 15802469, fl_exponent = - 7\<rparr>,
      \<lparr>fl_negative = False, fl_mantissa = 1000000, fl_exponent = 0\<rparr>,
      \<lparr>fl_negative = False, fl_mantissa = 5, fl_exponent = - 1\<rparr>]"
    by simp
  have "arrayToJsonArray show_float
     [\<lparr>fl_negative = False, fl_mantissa = 1, fl_exponent = - 1\<rparr>,
      \<lparr>fl_negative = True, fl_mantissa = 15703474, fl_exponent = - 27\<rparr>,
      \<lparr>fl_negative = False, fl_mantissa = 15802469, fl_exponent = - 7\<rparr>,
      \<lparr>fl_negative = False, fl_mantissa = 1000000, fl_exponent = 0\<rparr>,
      \<lparr>fl_negative = False, fl_mantissa = 5, fl_exponent = - 1\<rparr>] 4 =
     Inr ''[0.5, -0.117, 123457, 1e+06]''"
    unfolding float_values_in_default_format [OF l]
    by (simp add: json_array_def float_simps)
  with l show ?thesis
    by (intro conjI)
qed

text \<open>
  The values \<open>1234567\<close> and \<open>1234568\<close> are both values of a \<^verbatim>\<open>float\<close>. They are written as
  the same text: the seventh digit is rounded away, so the text does not carry the
  precision of the source value.
\<close>

theorem float_rounding_counterexample:
  "is_float32 \<lparr>fl_negative = False, fl_mantissa = 1234567, fl_exponent = 0\<rparr> \<and>
   is_float32 \<lparr>fl_negative = False, fl_mantissa = 1234568, fl_exponent = 0\<rparr> \<and>
   fl_num \<lparr>fl_negative = False, fl_mantissa = 1234567, fl_exponent = 0\<rparr> = 1234567 \<and>
   fl_den \<lparr>fl_negative = False, fl_mantissa = 1234567, fl_exponent = 0\<rparr> = 1 \<and>
   fl_num \<lparr>fl_negative = False, fl_mantissa = 1234568, fl_exponent = 0\<rparr> = 1234568 \<and>
   fl_den \<lparr>fl_negative = False, fl_mantissa = 1234568, fl_exponent = 0\<rparr> = 1 \<and>
   arrayToJsonArray show_float
     [\<lparr>fl_negative = False, fl_mantissa = 1234567, fl_exponent = 0\<rparr>] 1 =
     Inr ''[1.23457e+06]'' \<and>
   arrayToJsonArray show_float
     [\<lparr>fl_negative = False, fl_mantissa = 1234568, fl_exponent = 0\<rparr>] 1 =
     Inr ''[1.23457e+06]''"
  by (simp add: run_simps float_simps)

subsection \<open>Two runs, one text\<close>

text \<open>
  Claim C7. The document is a function of the tables alone: when a run of \<^verbatim>\<open>main\<close> that
  could open its file ends with the text \<open>doc\<close> in it, every other run on the same tables
  that can open the file ends with the same text, whatever the file held before.
\<close>

theorem main_output_deterministic:
  assumes "main showf W T True file1 = Inr (0, Some doc)"
  shows "main showf W T True file2 = Inr (0, Some doc)"
  using assms by (simp add: main_def split: sum.splits)

theorem main_output_deterministic_witness:
  "\<exists>doc. main show_nat 2 chain_cams True None = Inr (0, Some doc) \<and>
         main show_nat 2 chain_cams True (Some ''stale'') = Inr (0, Some doc)"
proof -
  from main_json_text [OF valid_chain_cams, of show_nat]
  obtain doc where "main_json show_nat 2 chain_cams = Inr doc"
    by blast
  then have first: "main show_nat 2 chain_cams True None = Inr (0, Some doc)"
    by (simp add: main_def)
  from main_output_deterministic [OF first]
  have "main show_nat 2 chain_cams True (Some ''stale'') = Inr (0, Some doc)" .
  with first show ?thesis
    by blast
qed

subsection \<open>The empty camera\<close>

text \<open>
  Claim C8. A camera with pixel count 0 is written as a record whose \<open>x\<close>, \<open>y\<close>, \<open>r\<close> and
  \<open>neighbors\<close> are empty arrays and whose \<open>npix\<close> is 0. No element of any table is read:
  the result is the same for all tables, the empty ones included.
\<close>

theorem empty_camera_record:
  \<open>writeDataSetToJson showf W json nadc posX posY radius neighbors 0 more' =
     Inr (json @ ''  "'' @ show_nat (unat nadc) @ ''": {\<newline>'' @
          ''    "nadc": '' @ show_nat (unat nadc) @ '',\<newline>'' @
          ''    "npix": 0,\<newline>'' @
          ''    "x": [],\<newline>'' @
          ''    "y": [],\<newline>'' @
          ''    "r": [],\<newline>'' @
          ''    "neighbors": [  ]\<newline>'' @
          (if more' then ''  },\<newline>'' else ''  }\<newline>''))\<close>
proof -
  have a: "arrayToJsonArray showf xs 0 = Inr ''[]''" for xs :: "'a list"
    by (simp add: arrayToJsonArray_def array_loop.simps)
  have n: "neighborsToJsonArray W neighbors 0 = Inr ''[  ]''"
    by (simp add: neighborsToJsonArray_def nbr_rows.simps)
  show ?thesis
    unfolding writeDataSetToJson_def Let_def a n sum.case by simp
qed

subsection \<open>Negative entries\<close>

text \<open>
  Claim C9. In every row in use of a valid table, whatever its entries are, a negative
  value before the sentinel is dropped: the scan of the row emits the values that pass the
  unsigned test, no negative scanned value is among them, and every emitted value is
  non-negative.
\<close>

theorem negative_entries_dropped:
  assumes "valid_table W neighbors npix" and "i < unat npix"
  shows "nbr_scan W neighbors i npix 0 (oss, True) =
      Inr (oss @ commas (map show_int (map sint (emitted npix (nbr_row W neighbors i)))),
           length (scanned (nbr_row W neighbors i))) \<and>
    (\<forall>v \<in> set (scanned (nbr_row W neighbors i)).
       sint v < 0 \<longrightarrow> v \<notin> set (emitted npix (nbr_row W neighbors i))) \<and>
    (\<forall>v \<in> set (emitted npix (nbr_row W neighbors i)). 0 \<le> sint v)"
proof -
  have n: "unat npix < 2 ^ 63"
    using assms(1) by (rule valid_table_npix)
  have row: "- 1 \<in> set (nbr_row W neighbors i)"
    using assms by (rule valid_table_row)
  have W: "W \<le> 2 ^ 31"
    using assms(1) by (simp add: valid_table_def)
  have nonneg: "0 \<le> sint v" if "v \<in> set (emitted npix (nbr_row W neighbors i))" for v
    using emitted_bounds(1) [OF n that] .
  then have "v \<notin> set (emitted npix (nbr_row W neighbors i))" if "sint v < 0" for v
    using that by fastforce
  with nonneg nbr_scan_row [OF row W] show ?thesis
    by simp
qed

theorem negative_entries_dropped_witness:
  "valid_table 3 [- 2, 1, - 1, 0, - 7, - 1] 2 \<and> (0 :: nat) < unat (2 :: size_t) \<and>
   scanned (nbr_row 3 [- 2, 1, - 1, 0, - 7, - 1] 0) = [- 2, 1] \<and>
   emitted 2 (nbr_row 3 [- 2, 1, - 1, 0, - 7, - 1] 0) = [1] \<and>
   nbr_scan 3 [- 2, 1, - 1, 0, - 7, - 1] 0 2 0 (''[ '', True) = Inr (''[ 1'', 2)"
proof -
  have v: "valid_table 3 [- 2, 1, - 1, 0, - 7, - 1] 2"
    by (simp add: valid_table_def nbr_row_def upt_rec)
  have i: "(0 :: nat) < unat (2 :: size_t)"
    by simp
  have s: "scanned (nbr_row 3 [- 2, 1, - 1, 0, - 7, - 1] 0) = [- 2, 1]"
    and e: "emitted 2 (nbr_row 3 [- 2, 1, - 1, 0, - 7, - 1] 0) = [1]"
    by (simp_all add: layout_simps)
  show ?thesis
    using v i s e negative_entries_dropped [OF v i, of "''[ ''"]
    by (simp add: show_int_def)
qed

subsection \<open>The record 384 is a truncation of the record 492\<close>

text \<open>
  Claim C10. For valid tables the document of \<^verbatim>\<open>main\<close> ends with the record keyed 492
  followed by the record keyed 384. The \<open>x\<close>, \<open>y\<close> and \<open>r\<close> of the record 384 are the first
  379 entries of those of the record 492, and its neighbor list for each pixel below 379
  is that of the record 492 with the entries of 379 and above removed.
\<close>

theorem cam384_truncates_cam492:
  assumes "valid_cams W T"
  shows "(\<exists>before. main_json showf W T =
            Inr (before @ record_json showf (cam492 W T) True @
                 record_json showf (cam384 W T) False @ ''}\<newline>'')) \<and>
    gr_nadc (cam492 W T) = 492 \<and> gr_npix (cam492 W T) = 490 \<and>
    gr_nadc (cam384 W T) = 384 \<and> gr_npix (cam384 W T) = 379 \<and>
    gr_x (cam384 W T) = take 379 (gr_x (cam492 W T)) \<and>
    gr_y (cam384 W T) = take 379 (gr_y (cam492 W T)) \<and>
    gr_r (cam384 W T) = take 379 (gr_r (cam492 W T)) \<and>
    gr_neighbors (cam384 W T) =
      map (filter (\<lambda>v. v < 379)) (take 379 (gr_neighbors (cam492 W T)))"
proof -
  from assms have v: "valid_table W (WC490Neighbors T) 490"
    by (simp add: valid_cams_def valid_camera_def)
  have le: "(379 :: size_t) \<le> 490"
    by (simp add: word_le_nat_alt)
  have doc: "\<exists>before. main_json showf W T =
      Inr (before @ record_json showf (cam492 W T) True @
           record_json showf (cam384 W T) False @ ''}\<newline>'')"
    unfolding main_json_text [OF assms] by (metis append.assoc)
  have nb: "gr_neighbors (cam384 W T) =
      map (filter (\<lambda>v. v < 379)) (take 379 (gr_neighbors (cam492 W T)))"
    using neighbor_lists_truncate [OF v le]
    by (simp add: cam384_def cam492_def camera_record_def)
  have rest: "gr_nadc (cam492 W T) = 492" "gr_npix (cam492 W T) = 490"
    "gr_nadc (cam384 W T) = 384" "gr_npix (cam384 W T) = 379"
    "gr_x (cam384 W T) = take 379 (gr_x (cam492 W T))"
    "gr_y (cam384 W T) = take 379 (gr_y (cam492 W T))"
    "gr_r (cam384 W T) = take 379 (gr_r (cam492 W T))"
    by (simp_all add: cam384_def cam492_def camera_record_def)
  show ?thesis
    by (intro conjI doc nb rest)
qed

theorem cam384_truncates_cam492_witness:
  "valid_cams 2 chain_cams \<and>
   gr_neighbors (cam492 2 chain_cams) ! 378 = [379] \<and>
   gr_neighbors (cam384 2 chain_cams) ! 378 = [] \<and>
   gr_neighbors (cam384 2 chain_cams) ! 377 = [378] \<and>
   length (gr_x (cam384 2 chain_cams)) = 379"
proof -
  note t = cam384_truncates_cam492 [OF valid_chain_cams, of show_nat]
  have g: "gr_neighbors (cam492 2 chain_cams) =
      map (\<lambda>i. map sint (emitted 490 (nbr_row 2 (chain_table 490) i))) [0..<490]"
    by (simp add: cam492_def camera_record_def neighbor_lists_def chain_cams_def)
  have r378: "gr_neighbors (cam492 2 chain_cams) ! 378 = [379]"
    and r377: "gr_neighbors (cam492 2 chain_cams) ! 377 = [378]"
    unfolding g by (simp_all add: nbr_row_chain_table emitted_def scanned_def word_le_nat_alt)
  have len: "length (gr_neighbors (cam492 2 chain_cams)) = 490"
    unfolding g by simp
  from t have nb: "gr_neighbors (cam384 2 chain_cams) =
      map (filter (\<lambda>v. v < 379)) (take 379 (gr_neighbors (cam492 2 chain_cams)))"
    and x: "gr_x (cam384 2 chain_cams) = take 379 (gr_x (cam492 2 chain_cams))"
    by simp_all
  have "gr_neighbors (cam384 2 chain_cams) ! 378 = []"
    and "gr_neighbors (cam384 2 chain_cams) ! 377 = [378]"
    unfolding nb by (simp_all add: len r378 r377)
  moreover have "length (gr_x (cam384 2 chain_cams)) = 379"
    unfolding x by (simp add: cam492_def camera_record_def chain_cams_def)
  ultimately show ?thesis
    using valid_chain_cams r378 by simp
qed

end
